theory Spec2Isabelle
  imports Complex_Main
begin

section \<open>JavaScript values\<close>

text \<open>
  A JavaScript string is a sequence of UTF-16 code units, modelled as a list of naturals;
  \<open>js\<close> embeds an ASCII literal. The currency glyphs of the coercion helpers are not
  ASCII, so a byte string would not do.
\<close>

type_synonym jsstring = "nat list"

definition js :: "string \<Rightarrow> jsstring" where
  "js s = map of_char s"

text \<open>
  A JavaScript number is modelled as an exact real or one of the three IEEE specials the
  code can observe (\<open>NaN\<close> through \<open>isNaN\<close> and \<open>||\<close>, the infinities through
  \<open>parseFloat\<close>). Rounding to 64-bit doubles and the sign of zero are not modelled.
\<close>

datatype jsnum = Fin real | PInf | NInf | NaN

instantiation jsnum :: comm_monoid_add
begin

definition zero_jsnum :: jsnum where
  "0 = Fin 0"

fun plus_jsnum :: "jsnum \<Rightarrow> jsnum \<Rightarrow> jsnum" where
  "NaN + _ = NaN"
| "_ + NaN = NaN"
| "Fin a + Fin b = Fin (a + b)"
| "PInf + NInf = NaN"
| "NInf + PInf = NaN"
| "PInf + _ = PInf"
| "_ + PInf = PInf"
| "NInf + _ = NInf"
| "_ + NInf = NInf"

instance
proof (standard, goal_cases)
  case (1 x y z)
  show ?case by (cases x; cases y; cases z; simp)
next
  case (2 x y)
  show ?case by (cases x; cases y; simp)
next
  case (3 x)
  show ?case by (cases x; simp add: zero_jsnum_def)
qed

end

text \<open>Subtraction, multiplication, division and the test \<open>x > 0\<close>.\<close>

fun js_neg :: "jsnum \<Rightarrow> jsnum" where
  "js_neg (Fin a) = Fin (- a)"
| "js_neg PInf = NInf"
| "js_neg NInf = PInf"
| "js_neg NaN = NaN"


fun js_sgn :: "jsnum \<Rightarrow> int" where
  "js_sgn (Fin a) = (if a > 0 then 1 else if a < 0 then - 1 else 0)"
| "js_sgn PInf = 1"
| "js_sgn NInf = - 1"
| "js_sgn NaN = 0"

fun js_mul :: "jsnum \<Rightarrow> jsnum \<Rightarrow> jsnum" where
  "js_mul NaN _ = NaN"
| "js_mul _ NaN = NaN"
| "js_mul (Fin a) (Fin b) = Fin (a * b)"
| "js_mul a b =
     (if js_sgn a * js_sgn b > 0 then PInf else if js_sgn a * js_sgn b < 0 then NInf else NaN)"

fun js_div :: "jsnum \<Rightarrow> jsnum \<Rightarrow> jsnum" where
  "js_div NaN _ = NaN"
| "js_div _ NaN = NaN"
| "js_div (Fin a) (Fin b) =
     (if b \<noteq> 0 then Fin (a / b)
      else if a > 0 then PInf else if a < 0 then NInf else NaN)"
| "js_div (Fin a) _ = Fin 0"
| "js_div a (Fin b) = (if b \<ge> 0 then a else js_neg a)"
| "js_div _ _ = NaN"

fun js_gt0 :: "jsnum \<Rightarrow> bool" where
  "js_gt0 a = (js_sgn a > 0)"

datatype jsval = Undefined | Null | Bool bool | Num jsnum | Str jsstring

text \<open>ToBoolean, as used by \<open>||\<close>, \<open>!\<close>, \<open>?:\<close> and \<open>if\<close>.\<close>

fun truthy :: "jsval \<Rightarrow> bool" where
  "truthy Undefined = False"
| "truthy Null = False"
| "truthy (Bool b) = b"
| "truthy (Num n) = (n \<noteq> NaN \<and> n \<noteq> Fin 0)"
| "truthy (Str s) = (s \<noteq> [])"

text \<open>\<open>a || b\<close> on arbitrary values, and on a value known to be a number.\<close>

definition js_or :: "jsval \<Rightarrow> jsval \<Rightarrow> jsval" where
  "js_or a b = (if truthy a then a else b)"

definition num_or :: "jsnum \<Rightarrow> jsnum \<Rightarrow> jsnum" where
  "num_or a b = (if truthy (Num a) then a else b)"

definition Unknown :: jsval where
  "Unknown = Str (js ''Unknown'')"

section \<open>Strings: \<open>replace\<close>, \<open>trim\<close>, \<open>parseFloat\<close>\<close>

text \<open>White space and line terminators: what \<open>trim\<close>, \<open>parseFloat\<close> and \<open>\s\<close> skip.\<close>

definition is_ws :: "nat \<Rightarrow> bool" where
  "is_ws c = (c \<in> set [9, 10, 11, 12, 13, 32, 160, 5760, 8232, 8233, 8239, 8287, 12288, 65279]
              \<or> (8192 \<le> c \<and> c \<le> 8202))"

definition is_digit :: "nat \<Rightarrow> bool" where
  "is_digit c = (48 \<le> c \<and> c \<le> 57)"

definition trim :: "jsstring \<Rightarrow> jsstring" where
  "trim s = rev (dropWhile is_ws (rev (dropWhile is_ws s)))"

text \<open>\<open>s.replace(/[cls]/g, '')\<close>: every code unit of the class is removed.\<close>

definition replace_all :: "nat list \<Rightarrow> jsstring \<Rightarrow> jsstring" where
  "replace_all cls s = filter (\<lambda>c. c \<notin> set cls) s"

definition digits_val :: "jsstring \<Rightarrow> nat" where
  "digits_val ds = foldl (\<lambda>a c. 10 * a + (c - 48)) 0 ds"

text \<open>
  \<open>parseFloat\<close> skips leading white space and reads the longest prefix that is a
  StrDecimalLiteral: a sign, then \<open>Infinity\<close> or digits with an optional fraction and
  an optional exponent; whatever follows is ignored, and no such prefix gives \<open>NaN\<close>.
\<close>

definition exponent_part :: "jsstring \<Rightarrow> int" where
  "exponent_part r =
     (case r of
        [] \<Rightarrow> 0
      | c # r' \<Rightarrow>
          if c = 101 \<or> c = 69 then
            (case r' of
               [] \<Rightarrow> 0
             | s # r'' \<Rightarrow>
                 if s = 45 then - int (digits_val (takeWhile is_digit r''))
                 else if s = 43 then int (digits_val (takeWhile is_digit r''))
                 else int (digits_val (takeWhile is_digit r')))
          else 0)"

definition scale10 :: "real \<Rightarrow> int \<Rightarrow> real" where
  "scale10 m e = (if e \<ge> 0 then m * 10 ^ nat e else m / 10 ^ nat (- e))"

definition unsigned_literal :: "jsstring \<Rightarrow> real option" where
  "unsigned_literal u =
     (let ip = takeWhile is_digit u;
          r1 = dropWhile is_digit u;
          dot = (r1 \<noteq> [] \<and> hd r1 = 46);
          fp = (if dot then takeWhile is_digit (tl r1) else []);
          r2 = (if dot then dropWhile is_digit (tl r1) else r1)
      in if ip = [] \<and> fp = [] then None
         else Some (scale10 (real (digits_val ip) + real (digits_val fp) / 10 ^ length fp)
                      (exponent_part r2)))"

definition parseFloat :: "jsstring \<Rightarrow> jsnum" where
  "parseFloat s =
     (let t = dropWhile is_ws s;
          neg = (t \<noteq> [] \<and> hd t = 45);
          u = (if t \<noteq> [] \<and> (hd t = 45 \<or> hd t = 43) then tl t else t)
      in if take 8 u = js ''Infinity'' then (if neg then NInf else PInf)
         else case unsigned_literal u of
                None \<Rightarrow> NaN
              | Some v \<Rightarrow> Fin (if neg then - v else v))"

section \<open>Numeric coercion\<close>

text \<open>
  Scope3Analytics (and, with the same body, the backend, Fugitive and Energy):
  \<^verbatim>\<open>
  if(val == null || val === '') return 0;
  if(typeof val === 'number') return val;
  if(typeof val === 'string'){
    const cleaned = val.replace(/[,<rupee>$<euro><pound><yen>]/g, '').trim();
    const parsed = parseFloat(cleaned);
    return isNaN(parsed) ? 0 : parsed; }
  return 0;
  \<close>
\<close>

definition currency :: "nat list" where
  "currency = [44, 8377, 36, 8364, 163, 165]"

definition parseNumeric :: "jsval \<Rightarrow> jsnum" where
  "parseNumeric v =
     (if v = Null \<or> v = Undefined \<or> v = Str [] then 0
      else case v of
             Num n \<Rightarrow> n
           | Str s \<Rightarrow>
               (let cleaned = trim (replace_all currency s);
                    parsed = parseFloat cleaned
                in if parsed = NaN then 0 else parsed)
           | _ \<Rightarrow> 0)"

text \<open>
  The Openness module (RPT purchases and sales) has its own helper. Its character class
  is written in the source as comma, U+00E2, U+201A, U+00B9, dollar, percent: the rupee
  sign went through a wrong decoding, and euro, pound and yen are absent.
  \<^verbatim>\<open>
  if (val == null || val === '') return 0;
  if (typeof val === 'number') return val;
  const parsed = parseFloat(String(val).replace(/[...]/g, '').trim());
  return isNaN(parsed) ? 0 : parsed;
  \<close>
  \<open>String(val)\<close> is reached by strings and booleans only.
\<close>

definition openness_class :: "nat list" where
  "openness_class = [44, 226, 8218, 185, 36, 37]"

definition bool_to_string :: "bool \<Rightarrow> jsstring" where
  "bool_to_string b = (if b then js ''true'' else js ''false'')"

definition openness_parseNumeric :: "jsval \<Rightarrow> jsnum" where
  "openness_parseNumeric v =
     (if v = Null \<or> v = Undefined \<or> v = Str [] then 0
      else case v of
             Num n \<Rightarrow> n
           | _ \<Rightarrow>
               (let parsed = parseFloat (trim (replace_all openness_class
                               (case v of Str s \<Rightarrow> s | Bool b \<Rightarrow> bool_to_string b | _ \<Rightarrow> [])))
                in if parsed = NaN then 0 else parsed))"

section \<open>The insertion-ordered \<open>Map\<close>\<close>

text \<open>
  A JavaScript \<open>Map\<close> iterates in insertion order and \<open>set\<close> on an existing key keeps
  the key's position, so it is an association list with distinct keys. Keys are compared
  by SameValueZero, which on the values above is structural equality.
\<close>

type_synonym ('k, 'v) jsmap = "('k \<times> 'v) list"

definition map_has :: "'k \<Rightarrow> ('k, 'v) jsmap \<Rightarrow> bool" where
  "map_has k m = (k \<in> fst ` set m)"

definition map_get :: "'k \<Rightarrow> ('k, 'v) jsmap \<Rightarrow> 'v option" where
  "map_get k m = map_of m k"

fun map_set :: "'k \<Rightarrow> 'v \<Rightarrow> ('k, 'v) jsmap \<Rightarrow> ('k, 'v) jsmap" where
  "map_set k v [] = [(k, v)]"
| "map_set k v ((k', v') # m) = (if k' = k then (k', v) # m else (k', v') # map_set k v m)"

definition map_values :: "('k, 'v) jsmap \<Rightarrow> 'v list" where
  "map_values m = map snd m"

text \<open>
  The idiom every grouping loop of the repository repeats:
  \<^verbatim>\<open>if (!map.has(k)) map.set(k, init); const g = map.get(k); g.f += ...\<close>
  The object \<open>g\<close> is mutated through its reference; the model stores the changed
  object back under the same key. \<open>map.get\<close> cannot miss after the \<open>set\<close>
  (lemma \<open>map_get_after_ensure\<close>), so the \<open>None\<close> branch is never taken.
\<close>

definition upsert :: "'k \<Rightarrow> 'v \<Rightarrow> ('v \<Rightarrow> 'v) \<Rightarrow> ('k, 'v) jsmap \<Rightarrow> ('k, 'v) jsmap" where
  "upsert k init f m =
     (let m1 = (if \<not> map_has k m then map_set k init m else m)
      in case map_get k m1 of
           None \<Rightarrow> m1
         | Some g \<Rightarrow> map_set k (f g) m1)"

section \<open>Objects\<close>

text \<open>
  A record of the pipeline is an object whose numeric fields went through
  \<open>parseNumeric\<close> (in the backend or in the upload handler) and whose other fields are
  labels. The model keeps the two kinds of property apart: \<open>fld\<close> for the labels
  (\<open>Undefined\<close> when absent) and \<open>numfld\<close> for the numbers (\<open>None\<close> when absent).
  \<open>num_of\<close> reads a numeric property where the code computes with it (an absent one is
  \<open>undefined\<close>, which arithmetic, \<open>||\<close> and comparisons treat as \<open>NaN\<close>);
  \<open>val_of\<close> reads it as a value.
\<close>

record jsobj =
  fld :: "string \<Rightarrow> jsval"
  numfld :: "string \<Rightarrow> jsnum option"

definition mk_obj :: "(string \<times> jsval) list \<Rightarrow> (string \<times> jsnum) list \<Rightarrow> jsobj" where
  "mk_obj ps ns =
     \<lparr>fld = (\<lambda>f. case map_of ps f of None \<Rightarrow> Undefined | Some v \<Rightarrow> v), numfld = map_of ns\<rparr>"

definition num_of :: "jsobj \<Rightarrow> string \<Rightarrow> jsnum" where
  "num_of d f = (case numfld d f of None \<Rightarrow> NaN | Some n \<Rightarrow> n)"


text \<open>\<open>o.f = x\<close> and \<open>o.f += x\<close> on a numeric property.\<close>

definition set_num :: "string \<Rightarrow> jsnum \<Rightarrow> jsobj \<Rightarrow> jsobj" where
  "set_num f x d = d\<lparr>numfld := (numfld d)(f \<mapsto> x)\<rparr>"

definition add_to :: "string \<Rightarrow> jsnum \<Rightarrow> jsobj \<Rightarrow> jsobj" where
  "add_to f x d = set_num f (num_of d f + x) d"

section \<open>\<open>Array.prototype.sort\<close> and \<open>slice\<close>\<close>




section \<open>WaterAnalytics\<close>



definition parameterMap_step :: "(jsval, jsobj) jsmap \<Rightarrow> jsobj \<Rightarrow> (jsval, jsobj) jsmap" where
  "parameterMap_step parameterMap item =
     (let param = js_or (fld item ''parameter'') Unknown;
          m1 = (if \<not> map_has param parameterMap
                then map_set param
                       (mk_obj [(''parameter'', param)]
                               [(''totalQuantity'', 0), (''totalValue'', 0), (''count'', 0)])
                       parameterMap
                else parameterMap)
      in case map_get param m1 of
           None \<Rightarrow> m1
         | Some grp \<Rightarrow>
             map_set param
               (add_to ''count'' (Fin 1)
                 (add_to ''totalValue'' (num_or (num_of item ''value'') 0)
                   (add_to ''totalQuantity'' (num_or (num_of item ''quantity'') 0) grp)))
               m1)"

definition water_byParameter :: "jsobj list \<Rightarrow> jsobj list" where
  "water_byParameter waterData =
     (if waterData = [] then []
      else map_values (foldl parameterMap_step [] waterData))"

section \<open>Fugitive emissions: \<open>aggregate(key)\<close>\<close>

definition aggregate_step :: "string \<Rightarrow> (jsval, jsobj) jsmap \<Rightarrow> jsobj \<Rightarrow> (jsval, jsobj) jsmap" where
  "aggregate_step key m d =
     (let cat = js_or (fld d key) Unknown
      in upsert cat
           (mk_obj [(''category'', cat)]
                   [(''totalQuantity'', 0), (''totalValue'', 0), (''convFactorSum'', 0),
                    (''rIntensitySum'', 0), (''pppIntensitySum'', 0), (''count'', 0)])
           (\<lambda>agg. add_to ''count'' (Fin 1)
                   (add_to ''pppIntensitySum'' (num_or (num_of d ''pppIntensity'') 0)
                   (add_to ''rIntensitySum'' (num_or (num_of d ''rIntensity'') 0)
                   (add_to ''convFactorSum'' (num_or (num_of d ''convFactor'') 0)
                   (add_to ''totalValue'' (num_or (num_of d ''value'') 0)
                   (add_to ''totalQuantity'' (num_or (num_of d ''quantity'') 0) agg))))))
           m)"

definition aggregate_map :: "string \<Rightarrow> jsobj list \<Rightarrow> (jsval, jsobj) jsmap" where
  "aggregate_map key data = foldl (aggregate_step key) [] data"

text \<open>\<open>v.count ? v.sum / v.count : 0\<close>\<close>

definition avg_of :: "jsobj \<Rightarrow> string \<Rightarrow> jsnum" where
  "avg_of v f =
     (if truthy (Num (num_of v ''count'')) then js_div (num_of v f) (num_of v ''count'') else 0)"

definition aggregate_row :: "jsobj \<Rightarrow> jsobj" where
  "aggregate_row v =
     mk_obj [(''category'', fld v ''category'')]
            [(''totalQuantity'', num_of v ''totalQuantity''),
             (''totalValue'', num_of v ''totalValue''),
             (''avgConvFactor'', avg_of v ''convFactorSum''),
             (''avgRIntensity'', avg_of v ''rIntensitySum''),
             (''avgPPPIntensity'', avg_of v ''pppIntensitySum'')]"

definition aggregate :: "string \<Rightarrow> jsobj list \<Rightarrow> jsobj list" where
  "aggregate key data = map aggregate_row (map_values (aggregate_map key data))"

section \<open>Electricity: \<open>aggregateBy(key)\<close>\<close>

text \<open>\<open>{...d, co2Emissions: (d.quantity || 0) * (d.convFactor || 0)}\<close>\<close>

definition enrich :: "jsobj \<Rightarrow> jsobj" where
  "enrich d =
     set_num ''co2Emissions''
       (js_mul (num_or (num_of d ''quantity'') 0) (num_or (num_of d ''convFactor'') 0)) d"

definition aggregateBy_step :: "string \<Rightarrow> (jsval, jsobj) jsmap \<Rightarrow> jsobj \<Rightarrow> (jsval, jsobj) jsmap" where
  "aggregateBy_step key m d =
     (let k = js_or (fld d key) Unknown
      in upsert k
           (mk_obj [(''category'', k)] [(''totalQuantity'', 0), (''totalCO2'', 0), (''count'', 0)])
           (\<lambda>agg. add_to ''count'' (Fin 1)
                   (add_to ''totalCO2'' (num_or (num_of d ''co2Emissions'') 0)
                   (add_to ''totalQuantity'' (num_or (num_of d ''quantity'') 0) agg)))
           m)"

definition aggregateBy :: "string \<Rightarrow> jsobj list \<Rightarrow> jsobj list" where
  "aggregateBy key enrichedData = map_values (foldl (aggregateBy_step key) [] enrichedData)"

definition electricity_byCategory :: "string \<Rightarrow> jsobj list \<Rightarrow> jsobj list" where
  "electricity_byCategory key data = (if data = [] then [] else aggregateBy key (map enrich data))"

section \<open>Fossil fuel: totals and the three maps in one pass\<close>

record fossil_state =
  typeMap :: "(jsval, jsobj) jsmap"
  deptMap :: "(jsval, jsobj) jsmap"
  plantMap :: "(jsval, jsobj) jsmap"
  totalQty :: jsnum
  totalValue :: jsnum
  convSum :: jsnum

definition fossil_step :: "fossil_state \<Rightarrow> jsobj \<Rightarrow> fossil_state" where
  "fossil_step s item =
     (let qty = num_or (num_of item ''quantity'') 0;
          vl = num_or (num_of item ''value'') 0;
          conv = num_or (num_of item ''convFactor'') 0;
          t = js_or (fld item ''type'') Unknown;
          dept = js_or (fld item ''department'') Unknown;
          plant = js_or (fld item ''plant'') Unknown
      in \<lparr>typeMap =
            upsert t (mk_obj [(''type'', t)] [(''totalQty'', 0), (''totalValue'', 0), (''avgConv'', 0)])
              (\<lambda>typeEntry. add_to ''avgConv'' conv
                 (add_to ''totalValue'' vl (add_to ''totalQty'' qty typeEntry)))
              (typeMap s),
          deptMap =
            upsert dept (mk_obj [(''department'', dept)] [(''totalValue'', 0)])
              (add_to ''totalValue'' vl) (deptMap s),
          plantMap =
            upsert plant (mk_obj [(''plant'', plant)] [(''totalQty'', 0)])
              (add_to ''totalQty'' qty) (plantMap s),
          totalQty = totalQty s + qty,
          totalValue = totalValue s + vl,
          convSum = convSum s + conv\<rparr>)"

definition fossil_run :: "jsobj list \<Rightarrow> fossil_state" where
  "fossil_run data =
     foldl fossil_step
       \<lparr>typeMap = [], deptMap = [], plantMap = [], totalQty = 0, totalValue = 0, convSum = 0\<rparr> data"

text \<open>\<open>avgConvFactor: t.totalQty > 0 ? t.avgConv / data.length : 0\<close>\<close>

definition fossil_byType :: "jsobj list \<Rightarrow> jsobj list" where
  "fossil_byType data =
     (if data = [] then []
      else map (\<lambda>t. mk_obj [(''type'', fld t ''type'')]
                        [(''totalQty'', num_of t ''totalQty''),
                         (''totalValue'', num_of t ''totalValue''),
                         (''avgConvFactor'',
                            if js_gt0 (num_of t ''totalQty'')
                            then js_div (num_of t ''avgConv'') (Fin (real (length data)))
                            else 0)])
             (map_values (typeMap (fossil_run data))))"

section \<open>Scope 3: totals and the three maps in one pass, top contributors\<close>









section \<open>Diversity: complaints by dimension\<close>

text \<open>
  \<^verbatim>\<open>if (d.dim1) { complaintsByDim1.set(d.dim1, (complaintsByDim1.get(d.dim1) || 0) + d.totalComplaints); }\<close>
\<close>

definition complaintsBy_step :: "string \<Rightarrow> (jsval, jsnum) jsmap \<Rightarrow> jsobj \<Rightarrow> (jsval, jsnum) jsmap" where
  "complaintsBy_step dimKey m d =
     (if truthy (fld d dimKey)
      then map_set (fld d dimKey)
             ((case map_get (fld d dimKey) m of None \<Rightarrow> 0 | Some n \<Rightarrow> num_or n 0)
                + num_of d ''totalComplaints'')
             m
      else m)"

definition complaintsByDim1 :: "jsobj list \<Rightarrow> (jsval, jsnum) jsmap" where
  "complaintsByDim1 data = foldl (complaintsBy_step ''dim1'') [] data"

definition complaintsBreakdown :: "jsobj list \<Rightarrow> jsobj list" where
  "complaintsBreakdown data =
     (if data = [] then []
      else map (\<lambda>(dim1, count). mk_obj [(''category'', dim1)] [(''totalComplaints'', count)])
             (complaintsByDim1 data))"

text \<open>
  \<open>overviewMetrics.totalComplaints += d.totalComplaints\<close>, from 0. (For no data at all
  the module shows no overview.)
\<close>

definition diversity_totalComplaints :: "jsobj list \<Rightarrow> jsnum" where
  "diversity_totalComplaints data = foldl (\<lambda>total d. total + num_of d ''totalComplaints'') 0 data"

section \<open>Openness: purchases by dimension, top twenty\<close>





section \<open>Names for what the theorems speak about\<close>

text \<open>The grouping key \<open>d[key] || 'Unknown'\<close> of the loops above.\<close>

definition group_key :: "string \<Rightarrow> jsobj \<Rightarrow> jsval" where
  "group_key key d = js_or (fld d key) Unknown"

text \<open>The keys a grouping loop has met, in the order it met them.\<close>

definition add_key :: "'k list \<Rightarrow> 'k \<Rightarrow> 'k list" where
  "add_key ks k = (if k \<in> set ks then ks else ks @ [k])"

definition first_seen :: "'k list \<Rightarrow> 'k list" where
  "first_seen ks = foldl add_key [] ks"


text \<open>
  The field values that the default \<open>|| 'Unknown'\<close> sends to the key \<open>Unknown\<close>: an
  absent field, null, false, NaN, the number 0, the empty string, and the string
  \<open>Unknown\<close> itself.
\<close>

definition collapsed :: "jsval set" where
  "collapsed = {Undefined, Null, Bool False, Num NaN, Num (Fin 0), Str [], Unknown}"

text \<open>
  The strings of the coercion property, after the specification's regular expression
  \<^verbatim>\<open>^[,<rupee>$<euro><pound><yen>%\s]*-?\d+(\.\d+)?[,<rupee>$<euro><pound><yen>%\s]*$\<close>:
  symbols and white space, an optional minus, digits, an optional fraction, symbols and
  white space. \<open>regex_form cls pre ip fp suf\<close> says that \<open>pre\<close>, \<open>ip\<close>, \<open>fp\<close>
  and \<open>suf\<close> are such parts, with the symbols before the number taken from \<open>cls\<close>
  (\<open>spec_symbols\<close> in the specification); an empty \<open>fp\<close> stands for no fraction.
  \<open>embedded_value\<close> is the number the digits denote, each digit weighted by its place
  (\<open>decimal\<close>).
\<close>

definition spec_symbols :: "nat list" where
  "spec_symbols = [44, 8377, 36, 8364, 163, 165, 37]"






section \<open>Loading an uploaded sheet\<close>

text \<open>
  \<open>XLSX.utils.sheet_to_json(worksheet, {header: 1})\<close> gives the first sheet as an array
  of rows, each an array of raw cells. A load ends in one of the \<open>throw\<close>s of the
  handler, caught by its own \<open>catch\<close> and turned into the status \<open>error\<close>, or in the
  records it passes to \<open>setData\<close>.
\<close>

type_synonym row = "jsval list"

datatype load_error =
    TooFewRows          \<comment> \<open>\<open>Excel must contain header and data rows\<close>\<close>
  | HeaderRowNotFound   \<comment> \<open>\<open>Header row not found with expected columns\<close>\<close>
  | NoValidData         \<comment> \<open>\<open>No valid data found\<close>\<close>
  | TypeError           \<comment> \<open>a property read on \<open>undefined\<close>\<close>

datatype status = Idle | Success | Error

record upload_state =
  records :: "jsobj list"
  uploadStatus :: status

text \<open>\<open>try { ... setData(processed); setUploadStatus('success') } catch { setUploadStatus('error') }\<close>\<close>

definition finish_upload :: "upload_state \<Rightarrow> load_error + jsobj list \<Rightarrow> upload_state" where
  "finish_upload s r =
     (case r of
        Inl e \<Rightarrow> s\<lparr>uploadStatus := Error\<rparr>
      | Inr processed \<Rightarrow> s\<lparr>records := processed, uploadStatus := Success\<rparr>)"

text \<open>\<open>row[idx]\<close>: a read past the end of an array is \<open>undefined\<close>.\<close>

definition cell :: "row \<Rightarrow> nat \<Rightarrow> jsval" where
  "cell r idx = (if idx < length r then r ! idx else Undefined)"

text \<open>\<open>r.some(cell => cell !== null && cell !== undefined && cell !== '')\<close>\<close>

definition not_blank :: "row \<Rightarrow> bool" where
  "not_blank r = list_ex (\<lambda>c. c \<noteq> Null \<and> c \<noteq> Undefined \<and> c \<noteq> Str []) r"

text \<open>
  \<open>val.toString()\<close> and \<open>String(val)\<close>. How a number prints is left to the parameter
  \<open>nts\<close> (\<open>Number.prototype.toString\<close>).
\<close>

definition toString :: "(jsnum \<Rightarrow> jsstring) \<Rightarrow> jsval \<Rightarrow> jsstring" where
  "toString nts v =
     (case v of
        Str s \<Rightarrow> s
      | Num n \<Rightarrow> nts n
      | Bool b \<Rightarrow> bool_to_string b
      | Null \<Rightarrow> js ''null''
      | Undefined \<Rightarrow> js ''undefined'')"

definition set_fld :: "string \<Rightarrow> jsval \<Rightarrow> jsobj \<Rightarrow> jsobj" where
  "set_fld f x d = d\<lparr>fld := (fld d)(f := x)\<rparr>"

definition empty_obj :: jsobj where
  "empty_obj = mk_obj [] []"

text \<open>
  \<open>Object.keys(fieldMapping).every(col => row.includes(col))\<close>: every key of the
  mapping is, as a string, a cell of the row.
\<close>

definition hasAllCols :: "(jsstring \<times> string) list \<Rightarrow> row \<Rightarrow> bool" where
  "hasAllCols fieldMapping r = list_all (\<lambda>col. Str col \<in> set r) (map fst fieldMapping)"

text \<open>
  \<^verbatim>\<open>
  for(let i=0; i < Math.min(10, rows.length); i++){
    const row = rows[i];
    if(row && Array.isArray(row)){
      if(hasAllCols){ headerIndex = i; headers = row; break; } } }
  \<close>
\<close>

function header_loop :: "(jsstring \<times> string) list \<Rightarrow> row list \<Rightarrow> nat \<Rightarrow> (nat \<times> row) option" where
  "header_loop fieldMapping rows i =
     (if i < min 10 (length rows)
      then (if hasAllCols fieldMapping (rows ! i) then Some (i, rows ! i)
            else header_loop fieldMapping rows (i + 1))
      else None)"
  by pat_completeness auto
termination
  by (relation "measure (\<lambda>(fieldMapping, rows, i). min 10 (length rows) - i)") auto

definition find_header :: "(jsstring \<times> string) list \<Rightarrow> row list \<Rightarrow> load_error + nat \<times> row" where
  "find_header fieldMapping rows =
     (case header_loop fieldMapping rows 0 of
        None \<Rightarrow> Inl HeaderRowNotFound
      | Some hit \<Rightarrow> Inr hit)"

subsection \<open>Scope 3\<close>

definition scope3_fieldMapping :: "(jsstring \<times> string) list" where
  "scope3_fieldMapping =
     [(js ''Sr.No.'', ''srNo''),
      (js ''BRSR ID'', ''brsrId''),
      (js ''Financial Year'', ''financialYear''),
      (js ''Business Code'', ''businessCode''),
      (js ''Plant'', ''plant''),
      (js ''Department'', ''department''),
      (js ''Attribute'', ''attribute''),
      (js ''Parameter'', ''parameter''),
      (js ''Sub Category'', ''subCategory''),
      (js ''Total Quantity'', ''totalQuantity''),
      (js ''Total EFFuel'', ''totalEFFuel''),
      (js ''Total Value'', ''totalValue''),
      (js ''Doc Status'', ''docStatus''),
      (js ''Pending With'', ''pendingWith'')]"

definition scope3_numericFields :: "string list" where
  "scope3_numericFields = [''totalQuantity'', ''totalEFFuel'', ''totalValue'']"

text \<open>
  \<^verbatim>\<open>
  headers.forEach((h, idx) => {
    if(h && typeof h === 'string' && fieldMapping[h]){
      const key = fieldMapping[h]; const val = row[idx];
      if(numericFields.includes(key)) mapped[key] = parseNumeric(val);
      else mapped[key] = val ? val.toString().trim() : ''; } });
  \<close>
\<close>

definition scope3_mapCell :: "(jsnum \<Rightarrow> jsstring) \<Rightarrow> row \<Rightarrow> jsobj \<Rightarrow> jsval \<times> nat \<Rightarrow> jsobj" where
  "scope3_mapCell nts r mapped hi =
     (case fst hi of
        Str h \<Rightarrow>
          (if h \<noteq> [] then
             (case map_of scope3_fieldMapping h of
                Some key \<Rightarrow>
                  (let v = cell r (snd hi)
                   in if key \<in> set scope3_numericFields
                      then set_num key (parseNumeric v) mapped
                      else set_fld key (Str (if truthy v then trim (toString nts v) else [])) mapped)
              | None \<Rightarrow> mapped)
           else mapped)
      | _ \<Rightarrow> mapped)"

definition scope3_mapRow :: "(jsnum \<Rightarrow> jsstring) \<Rightarrow> row \<Rightarrow> row \<Rightarrow> jsobj" where
  "scope3_mapRow nts headers r =
     foldl (scope3_mapCell nts r) empty_obj (zip headers [0 ..< length headers])"

definition scope3_parse :: "(jsnum \<Rightarrow> jsstring) \<Rightarrow> row list \<Rightarrow> load_error + jsobj list" where
  "scope3_parse nts rows =
     (if length rows < 2 then Inl TooFewRows
      else case find_header scope3_fieldMapping rows of
             Inl e \<Rightarrow> Inl e
           | Inr (headerIndex, headers) \<Rightarrow>
               (let dataRows = drop (headerIndex + 1) rows;
                    processedData = map (scope3_mapRow nts headers) (filter not_blank dataRows)
                in if length processedData = 0 then Inl NoValidData else Inr processedData))"

definition scope3_handleFileUpload :: "(jsnum \<Rightarrow> jsstring) \<Rightarrow> upload_state \<Rightarrow> row list \<Rightarrow> upload_state" where
  "scope3_handleFileUpload nts s rows = finish_upload s (scope3_parse nts rows)"

subsection \<open>Diversity\<close>

definition diversity_fieldMapping :: "(jsstring \<times> string) list" where
  "diversity_fieldMapping =
     [(js ''Sr.No.'', ''srNo''),
      (js ''Sr No'', ''srNoAlt''),
      (js ''Objective Code'', ''objectiveCode''),
      (js ''Financial Year'', ''financialYear''),
      (js ''Month'', ''month''),
      (js ''Attribute'', ''attribute''),
      (js ''Dim1'', ''dim1''),
      (js ''Dim2'', ''dim2''),
      (js ''Emission Source'', ''emissionSource''),
      (js ''Start Date'', ''startDate''),
      (js ''End Date'', ''endDate''),
      (js ''Wages Paid To Females'', ''wagesFemales''),
      (js ''Wages Paid To Male'', ''wagesMales''),
      (js ''Total Complaints'', ''totalComplaints''),
      (js ''Complaints By Female Employee'', ''complaintsByFemale''),
      (js ''Complaints on POSH upheld'', ''poshUpheld''),
      (js ''Actual Compliance Ind'', ''complianceInd'')]"

definition diversity_numericFields :: "string list" where
  "diversity_numericFields =
     [''wagesFemales'', ''wagesMales'', ''totalComplaints'', ''complaintsByFemale'', ''poshUpheld'']"

text \<open>
  The Diversity helper calls \<open>val.toString()\<close> on whatever is neither null, empty nor a
  number, that is, on strings and booleans.
\<close>

definition diversity_parseNumeric :: "jsval \<Rightarrow> jsnum" where
  "diversity_parseNumeric v =
     (if v = Null \<or> v = Undefined \<or> v = Str [] then 0
      else case v of
             Num n \<Rightarrow> n
           | _ \<Rightarrow>
               (let cleaned = trim (replace_all currency
                                (case v of Str s \<Rightarrow> s | Bool b \<Rightarrow> bool_to_string b | _ \<Rightarrow> []));
                    parsed = parseFloat cleaned
                in if parsed = NaN then 0 else parsed))"

text \<open>
  \<^verbatim>\<open>
  headers.forEach((header, idx) => {
    const key = fieldMapping[header]; if (!key) return;
    const value = row[idx];
    if (numericFields.includes(key)) mapped[key] = parseNumeric(value);
    else mapped[key] = value ? value.toString().trim() : ''; });
  \<close>
\<close>

definition diversity_mapCell :: "(jsnum \<Rightarrow> jsstring) \<Rightarrow> row \<Rightarrow> jsobj \<Rightarrow> jsval \<times> nat \<Rightarrow> jsobj" where
  "diversity_mapCell nts r mapped hi =
     (case fst hi of
        Str header \<Rightarrow>
          (case map_of diversity_fieldMapping header of
             None \<Rightarrow> mapped
           | Some key \<Rightarrow>
               (let v = cell r (snd hi)
                in if key \<in> set diversity_numericFields
                   then set_num key (diversity_parseNumeric v) mapped
                   else set_fld key (Str (if truthy v then trim (toString nts v) else [])) mapped))
      | _ \<Rightarrow> mapped)"

definition diversity_mapRow :: "(jsnum \<Rightarrow> jsstring) \<Rightarrow> row \<Rightarrow> row \<Rightarrow> jsobj" where
  "diversity_mapRow nts headers r =
     foldl (diversity_mapCell nts r) empty_obj (zip headers [0 ..< length headers])"

definition diversity_parse :: "(jsnum \<Rightarrow> jsstring) \<Rightarrow> row list \<Rightarrow> load_error + jsobj list" where
  "diversity_parse nts rows =
     (if length rows < 2 then Inl TooFewRows
      else case find_header diversity_fieldMapping rows of
             Inl e \<Rightarrow> Inl e
           | Inr (headerRowIndex, headers) \<Rightarrow>
               (let dataRows = drop (headerRowIndex + 1) rows;
                    processed = map (diversity_mapRow nts headers) (filter not_blank dataRows)
                in if length processed = 0 then Inl NoValidData else Inr processed))"

definition diversity_handleFileUpload :: "(jsnum \<Rightarrow> jsstring) \<Rightarrow> upload_state \<Rightarrow> row list \<Rightarrow> upload_state" where
  "diversity_handleFileUpload nts s rows = finish_upload s (diversity_parse nts rows)"

subsection \<open>Openness: the header is the fifth row\<close>

definition openness_fieldMapping :: "(jsstring \<times> string) list" where
  "openness_fieldMapping =
     [(js ''Sr.No.'', ''srNo''),
      (js ''Sr No'', ''srNoAlt''),
      (js ''Objective Code'', ''objectiveCode''),
      (js ''Financial Year'', ''financialYear''),
      (js ''Month'', ''month''),
      (js ''Dim1'', ''dim1''),
      (js ''Dim2'', ''dim2''),
      (js ''Attribute'', ''attribute''),
      (js ''Emission Source'', ''emissionSource''),
      (js ''Start Date'', ''startDate''),
      (js ''End Date'', ''endDate''),
      (js ''No of Trading Houses'', ''noTradingHouses''),
      (js ''% of Total Purchases'', ''percentTotalPurchases''),
      (js ''Top 10 % to TH'', ''top10PercentTH''),
      (js ''No of Dealers'', ''noDealers''),
      (js ''% of Total Salers'', ''percentTotalSalers''),
      (js ''Top 10 % to TH Sales'', ''top10PercentTHSales''),
      (js ''RPT Purchases'', ''rptPurchases''),
      (js ''RPT Sales'', ''rptSales''),
      (js ''RPT L & A'', ''rptLA''),
      (js ''RPT Investments'', ''rptInvestments''),
      (js ''Actual Compliance Ind'', ''actualCompliance'')]"

definition openness_numericFields :: "string list" where
  "openness_numericFields =
     [''noTradingHouses'', ''percentTotalPurchases'', ''top10PercentTH'', ''noDealers'',
      ''percentTotalSalers'', ''top10PercentTHSales'', ''rptPurchases'', ''rptSales'',
      ''rptLA'', ''rptInvestments'']"

text \<open>\<open>headerRow.forEach((h, idx) => { if (fieldMapping[h]) colIndexMap[fieldMapping[h]] = idx; })\<close>\<close>

definition colIndex_step :: "(string, nat) jsmap \<Rightarrow> jsval \<times> nat \<Rightarrow> (string, nat) jsmap" where
  "colIndex_step colIndexMap hi =
     (case fst hi of
        Str h \<Rightarrow>
          (case map_of openness_fieldMapping h of
             Some key \<Rightarrow> map_set key (snd hi) colIndexMap
           | None \<Rightarrow> colIndexMap)
      | _ \<Rightarrow> colIndexMap)"

text \<open>
  \<^verbatim>\<open>
  for (const [key, idx] of Object.entries(colIndexMap))
    rowObj[key] = numericFields.includes(key) ? parseNumeric(row[idx])
                : row[idx] != null ? String(row[idx]).trim() : '';
  rowObj.monthYear = rowObj.month + ' ' + rowObj.financialYear;
  \<close>
\<close>

definition openness_mapRow :: "(jsnum \<Rightarrow> jsstring) \<Rightarrow> (string, nat) jsmap \<Rightarrow> row \<Rightarrow> jsobj" where
  "openness_mapRow nts colIndexMap r =
     (let rowObj =
            foldl (\<lambda>rowObj (key, idx).
                     if key \<in> set openness_numericFields
                     then set_num key (openness_parseNumeric (cell r idx)) rowObj
                     else set_fld key
                            (Str (if cell r idx \<noteq> Null \<and> cell r idx \<noteq> Undefined
                                  then trim (toString nts (cell r idx)) else []))
                            rowObj)
              empty_obj colIndexMap
      in set_fld ''monthYear''
           (Str (toString nts (fld rowObj ''month'') @ js '' '' @ toString nts (fld rowObj ''financialYear'')))
           rowObj)"

text \<open>
  \<open>rawRows[4]\<close> is \<open>undefined\<close> in a sheet of fewer than five rows, and
  \<open>headerRow.forEach\<close> then throws a TypeError inside the \<open>try\<close>.
\<close>

definition openness_parse :: "(jsnum \<Rightarrow> jsstring) \<Rightarrow> row list \<Rightarrow> load_error + jsobj list" where
  "openness_parse nts rawRows =
     (if length rawRows \<le> 4 then Inl TypeError
      else
        (let headerRow = rawRows ! 4;
             dataRows = drop 5 rawRows;
             colIndexMap = foldl colIndex_step [] (zip headerRow [0 ..< length headerRow]);
             parsed = map (openness_mapRow nts colIndexMap) (filter not_blank dataRows)
         in if length parsed = 0 then Inl NoValidData else Inr parsed))"

definition openness_handleUpload :: "(jsnum \<Rightarrow> jsstring) \<Rightarrow> upload_state \<Rightarrow> row list \<Rightarrow> upload_state" where
  "openness_handleUpload nts s rawRows = finish_upload s (openness_parse nts rawRows)"

section \<open>Sample inputs\<close>

text \<open>Small inputs on which the theorems below are instantiated.\<close>

definition water_sample :: "jsobj list" where
  "water_sample =
     [mk_obj [(''parameter'', Str (js ''Intake''))] [(''quantity'', Fin 100), (''value'', Fin 7)],
      mk_obj [] [(''quantity'', Fin 5)],
      mk_obj [(''parameter'', Str (js ''Intake''))] [(''quantity'', Fin 200), (''value'', Fin 1)]]"


definition key_sample :: "jsobj list" where
  "key_sample =
     [mk_obj [(''plant'', Str [])] [(''quantity'', Fin 1)],
      mk_obj [(''plant'', Str (js ''Pune''))] [(''quantity'', Fin 2)],
      mk_obj [(''plant'', Num (Fin 0))] [(''quantity'', Fin 3)],
      mk_obj [(''plant'', Null)] [(''quantity'', Fin 4)],
      mk_obj [] [(''quantity'', Fin 5)],
      mk_obj [(''plant'', Str (js ''Unknown''))] [(''quantity'', Fin 6)]]"

definition diversity_sample :: "jsobj list" where
  "diversity_sample =
     [mk_obj [(''dim1'', Str [])] [(''totalComplaints'', Fin 3)],
      mk_obj [(''dim1'', Str (js ''Ops''))] [(''totalComplaints'', Fin 2)]]"

definition fossil_sample :: "jsobj list" where
  "fossil_sample =
     [mk_obj [(''type'', Str (js ''Diesel''))] [(''quantity'', Fin 10), (''convFactor'', Fin 2)],
      mk_obj [(''type'', Str (js ''Petrol''))] [(''quantity'', Fin 10), (''convFactor'', Fin 4)]]"

definition scope3_header :: row where
  "scope3_header = map (\<lambda>p. Str (fst p)) scope3_fieldMapping"


definition blank_grid :: "row list" where
  "blank_grid = [scope3_header, [], [Null, Str [], Undefined]]"

definition diversity_grid :: "row list" where
  "diversity_grid =
     [map (\<lambda>p. Str (fst p)) (filter (\<lambda>p. fst p \<noteq> js ''Sr No'') diversity_fieldMapping),
      [Num (Fin 1), Str (js ''OBJ''), Str (js ''2024''), Str (js ''January'')]]"

section \<open>Facts about the \<open>Map\<close> model\<close>

lemma keys_map_set: "fst ` set (map_set k v m) = insert k (fst ` set m)"
  by (induction m) (force split: if_splits)+

lemma map_has_set: "map_has k (map_set k v m)"
  by (simp add: map_has_def keys_map_set)

lemma map_fst_map_set:
  "map fst (map_set k v m) = (if k \<in> fst ` set m then map fst m else map fst m @ [k])"
  by (induction m) (force split: if_splits)+

lemma map_of_map_set: "map_of (map_set k v m) = (map_of m)(k \<mapsto> v)"
  by (induction m) (auto simp: fun_eq_iff)

lemma map_get_after_ensure:
  "map_get k (if \<not> map_has k m then map_set k init m else m) \<noteq> None"
  by (simp add: map_get_def map_has_def map_of_map_set map_of_eq_None_iff keys_map_set)

lemma upsert_new:
  "k \<notin> fst ` set m \<Longrightarrow> upsert k init f m = map_set k (f init) (map_set k init m)"
  by (simp add: upsert_def map_has_def map_get_def map_of_map_set)

lemma upsert_old:
  "map_of m k = Some g \<Longrightarrow> upsert k init f m = map_set k (f g) m"
  by (simp add: upsert_def map_has_def map_get_def map_of_eq_None_iff[symmetric])

lemma map_fst_upsert:
  "map fst (upsert k init f m) = (if k \<in> fst ` set m then map fst m else map fst m @ [k])"
proof (cases "map_of m k")
  case None
  then have "k \<notin> fst ` set m" by (simp add: map_of_eq_None_iff)
  then show ?thesis by (simp add: upsert_new map_fst_map_set keys_map_set)
next
  case (Some g)
  then have "k \<in> fst ` set m" by (metis map_of_eq_None_iff option.distinct(1))
  then show ?thesis using Some by (simp add: upsert_old map_fst_map_set)
qed

lemma map_of_upsert:
  "map_of (upsert k init f m) =
     (map_of m)(k \<mapsto> f (case map_of m k of None \<Rightarrow> init | Some g \<Rightarrow> g))"
proof (cases "map_of m k")
  case None
  then have "k \<notin> fst ` set m" by (simp add: map_of_eq_None_iff)
  then show ?thesis using None by (simp add: upsert_new map_of_map_set)
next
  case (Some g)
  then show ?thesis by (simp add: upsert_old map_of_map_set)
qed

lemma sum_list_map_set:
  fixes \<mu> :: "'v \<Rightarrow> 'a::comm_monoid_add"
  shows "map_of m k = Some g \<Longrightarrow> \<mu> v = \<mu> g + c \<Longrightarrow>
    sum_list (map (\<lambda>e. \<mu> (snd e)) (map_set k v m)) = sum_list (map (\<lambda>e. \<mu> (snd e)) m) + c"
  by (induction m) (auto simp: ac_simps)

lemma sum_list_map_set_new:
  fixes \<mu> :: "'v \<Rightarrow> 'a::comm_monoid_add"
  shows "k \<notin> fst ` set m \<Longrightarrow>
    sum_list (map (\<lambda>e. \<mu> (snd e)) (map_set k v m)) = sum_list (map (\<lambda>e. \<mu> (snd e)) m) + \<mu> v"
  by (induction m) (auto simp: ac_simps)

lemma sum_list_upsert:
  fixes \<mu> :: "'v \<Rightarrow> 'a::comm_monoid_add"
  assumes init: "\<mu> init = 0" and step: "\<And>g. \<mu> (f g) = \<mu> g + c"
  shows "sum_list (map (\<lambda>e. \<mu> (snd e)) (upsert k init f m)) = sum_list (map (\<lambda>e. \<mu> (snd e)) m) + c"
proof (cases "map_of m k")
  case None
  then have nk: "k \<notin> fst ` set m" by (simp add: map_of_eq_None_iff)
  have g: "map_of (map_set k init m) k = Some init"
    by (simp add: map_of_map_set)
  have "sum_list (map (\<lambda>e. \<mu> (snd e)) (map_set k (f init) (map_set k init m)))
          = sum_list (map (\<lambda>e. \<mu> (snd e)) (map_set k init m)) + c"
    by (rule sum_list_map_set[where g = init]) (simp_all add: g step)
  also have "\<dots> = sum_list (map (\<lambda>e. \<mu> (snd e)) m) + c"
    using nk by (simp add: sum_list_map_set_new init)
  finally show ?thesis
    using nk by (simp add: upsert_new)
next
  case (Some g)
  show ?thesis
    using Some by (simp add: upsert_old sum_list_map_set[where g = g] step)
qed

lemma map_set_pres:
  "\<forall>(k', g) \<in> set m. Q k' g \<Longrightarrow> Q k v \<Longrightarrow> \<forall>(k', g) \<in> set (map_set k v m). Q k' g"
  by (induction m) (force split: if_splits)+

lemma upsert_pres:
  assumes m: "\<forall>(k', g) \<in> set m. Q k' g" and i: "Q k init" and f: "\<And>g. Q k g \<Longrightarrow> Q k (f g)"
  shows "\<forall>(k', g) \<in> set (upsert k init f m). Q k' g"
proof (cases "map_of m k")
  case None
  then have nk: "k \<notin> fst ` set m" by (simp add: map_of_eq_None_iff)
  have "\<forall>(k', g) \<in> set (map_set k init m). Q k' g"
    using m i by (rule map_set_pres)
  then have "\<forall>(k', g) \<in> set (map_set k (f init) (map_set k init m)). Q k' g"
    using f[OF i] by (rule map_set_pres)
  then show ?thesis using nk by (simp add: upsert_new)
next
  case (Some g)
  then have "(k, g) \<in> set m" by (rule map_of_SomeD)
  then have "Q k g" using m by auto
  then have "Q k (f g)" by (rule f)
  with m have "\<forall>(k', g) \<in> set (map_set k (f g) m). Q k' g" by (rule map_set_pres)
  then show ?thesis using Some by (simp add: upsert_old)
qed

subsection \<open>A whole grouping loop\<close>

lemma first_seen_snoc: "first_seen (ks @ [k]) = add_key (first_seen ks) k"
  by (simp add: first_seen_def)

lemma set_first_seen: "set (first_seen ks) = set ks"
  by (induction ks rule: rev_induct) (auto simp: first_seen_snoc add_key_def first_seen_def)

lemma distinct_first_seen: "distinct (first_seen ks)"
  by (induction ks rule: rev_induct) (auto simp: first_seen_snoc add_key_def first_seen_def)

lemma first_seen_remdups: "first_seen ks = rev (remdups (rev ks))"
  by (induction ks rule: rev_induct) (simp_all add: first_seen_snoc add_key_def first_seen_def set_first_seen[unfolded first_seen_def])

lemma length_first_seen: "length (first_seen ks) = card (set ks)"
  using distinct_card[OF distinct_first_seen, of ks] by (simp add: set_first_seen)

lemma map_fst_foldl_upsert:
  "map fst (foldl (\<lambda>m d. upsert (key d) (init d) (f d) m) m0 ds)
     = foldl add_key (map fst m0) (map key ds)"
  by (induction ds arbitrary: m0) (simp_all add: map_fst_upsert add_key_def)

lemma sum_list_foldl_upsert:
  fixes \<mu> :: "'v \<Rightarrow> 'a::comm_monoid_add"
  assumes "\<And>d. \<mu> (init d) = 0" and "\<And>d g. \<mu> (f d g) = \<mu> g + c d"
  shows "sum_list (map (\<lambda>e. \<mu> (snd e)) (foldl (\<lambda>m d. upsert (key d) (init d) (f d) m) m0 ds))
           = sum_list (map (\<lambda>e. \<mu> (snd e)) m0) + sum_list (map c ds)"
proof (induction ds arbitrary: m0)
  case Nil
  show ?case by simp
next
  case (Cons d ds)
  have "sum_list (map (\<lambda>e. \<mu> (snd e)) (upsert (key d) (init d) (f d) m0))
          = sum_list (map (\<lambda>e. \<mu> (snd e)) m0) + c d"
    by (rule sum_list_upsert) (simp_all add: assms)
  then show ?case by (simp add: Cons.IH ac_simps)
qed

lemma foldl_upsert_pres:
  assumes "\<forall>(k', g) \<in> set m0. Q k' g"
    and "\<And>d. Q (key d) (init d)" and "\<And>d g. Q (key d) g \<Longrightarrow> Q (key d) (f d g)"
  shows "\<forall>(k', g) \<in> set (foldl (\<lambda>m d. upsert (key d) (init d) (f d) m) m0 ds). Q k' g"
  using assms(1)
proof (induction ds arbitrary: m0)
  case Nil
  then show ?case by simp
next
  case (Cons d ds)
  have "\<forall>(k', g) \<in> set (upsert (key d) (init d) (f d) m0). Q k' g"
    using Cons.prems assms(2,3) by (rule upsert_pres)
  then show ?case by (simp add: Cons.IH)
qed

text \<open>
  The summary stored under a key is the fold of the loop body over the records with
  that key, in their order, started from the initial summary of the first of them.
\<close>

lemma map_of_foldl_upsert:
  "map_of (foldl (\<lambda>m d. upsert (key d) (init d) (f d) m) m0 ds) k =
     (case filter (\<lambda>d. key d = k) ds of
        [] \<Rightarrow> map_of m0 k
      | r # rs \<Rightarrow>
          Some (foldl (\<lambda>g d. f d g) (case map_of m0 k of None \<Rightarrow> init r | Some g \<Rightarrow> g) (r # rs)))"
proof (induction ds arbitrary: m0)
  case Nil
  show ?case by simp
next
  case (Cons d ds)
  show ?case
  proof (cases "key d = k")
    case True
    have m1: "map_of (upsert k (init d) (f d) m0) k
                = Some (f d (case map_of m0 k of None \<Rightarrow> init d | Some g \<Rightarrow> g))"
      by (simp add: map_of_upsert)
    show ?thesis
      using True by (simp add: Cons.IH m1 split: list.splits)
  next
    case False
    have m1: "map_of (upsert (key d) (init d) (f d) m0) k = map_of m0 k"
      using False by (simp add: map_of_upsert)
    show ?thesis
      using False by (simp add: Cons.IH m1 split: list.splits)
  qed
qed

lemma map_snd_key:
  assumes "\<forall>(k, g) \<in> set m. sel g = k"
  shows "map sel (map snd m) = map fst m"
  using assms by (induction m) auto

lemma distinct_map_of_in:
  "distinct (map fst m) \<Longrightarrow> (k, g) \<in> set m \<Longrightarrow> map_of m k = Some g"
  by simp

subsection \<open>Objects and numbers\<close>

lemma num_of_add_to: "num_of (add_to f x d) f' = (if f' = f then num_of d f + x else num_of d f')"
  by (simp add: add_to_def set_num_def num_of_def)

lemma fld_add_to: "fld (add_to f x d) = fld d"
  by (simp add: add_to_def set_num_def)

lemma fld_mk_obj: "fld (mk_obj ps ns) f = (case map_of ps f of None \<Rightarrow> Undefined | Some v \<Rightarrow> v)"
  by (simp add: mk_obj_def)

lemma num_of_mk_obj: "num_of (mk_obj ps ns) f = (case map_of ns f of None \<Rightarrow> NaN | Some n \<Rightarrow> n)"
  by (simp add: mk_obj_def num_of_def)

lemma sum_list_Fin_one: "sum_list (map (\<lambda>d. Fin 1) ds) = Fin (real (length ds))"
  by (induction ds) (simp_all add: zero_jsnum_def)


subsection \<open>WaterAnalytics and the Fugitive aggregate\<close>

lemma parameterMap_step_upsert:
  "parameterMap_step =
     (\<lambda>m d. upsert (group_key ''parameter'' d)
        (mk_obj [(''parameter'', group_key ''parameter'' d)]
                [(''totalQuantity'', 0), (''totalValue'', 0), (''count'', 0)])
        (\<lambda>grp. add_to ''count'' (Fin 1)
                 (add_to ''totalValue'' (num_or (num_of d ''value'') 0)
                   (add_to ''totalQuantity'' (num_or (num_of d ''quantity'') 0) grp))) m)"
  by (rule ext, rule ext) (simp add: parameterMap_step_def upsert_def group_key_def Let_def)

lemma water_keys:
  "map fst (foldl parameterMap_step [] ds) = first_seen (map (group_key ''parameter'') ds)"
  unfolding parameterMap_step_upsert by (simp add: map_fst_foldl_upsert first_seen_def)

lemma water_entry_key: "\<forall>(k, g) \<in> set (foldl parameterMap_step [] ds). fld g ''parameter'' = k"
  unfolding parameterMap_step_upsert
  by (rule foldl_upsert_pres) (simp_all add: fld_mk_obj fld_add_to)

lemma water_counts:
  "sum_list (map (\<lambda>e. num_of (snd e) ''count'') (foldl parameterMap_step [] ds)) = Fin (real (length ds))"
  unfolding parameterMap_step_upsert
  by (subst sum_list_foldl_upsert[where c = "\<lambda>d. Fin 1"])
     (simp_all add: num_of_add_to num_of_mk_obj sum_list_Fin_one)

lemma aggregate_step_upsert:
  "aggregate_step key =
     (\<lambda>m d. upsert (group_key key d)
        (mk_obj [(''category'', group_key key d)]
                [(''totalQuantity'', 0), (''totalValue'', 0), (''convFactorSum'', 0),
                 (''rIntensitySum'', 0), (''pppIntensitySum'', 0), (''count'', 0)])
        (\<lambda>agg. add_to ''count'' (Fin 1)
                   (add_to ''pppIntensitySum'' (num_or (num_of d ''pppIntensity'') 0)
                   (add_to ''rIntensitySum'' (num_or (num_of d ''rIntensity'') 0)
                   (add_to ''convFactorSum'' (num_or (num_of d ''convFactor'') 0)
                   (add_to ''totalValue'' (num_or (num_of d ''value'') 0)
                   (add_to ''totalQuantity'' (num_or (num_of d ''quantity'') 0) agg)))))) m)"
  by (rule ext, rule ext) (simp add: aggregate_step_def group_key_def Let_def)

lemma aggregate_keys:
  "map fst (aggregate_map key ds) = first_seen (map (group_key key) ds)"
  unfolding aggregate_map_def aggregate_step_upsert by (simp add: map_fst_foldl_upsert first_seen_def)

lemma aggregate_entry_key: "\<forall>(k, g) \<in> set (aggregate_map key ds). fld g ''category'' = k"
  unfolding aggregate_map_def aggregate_step_upsert
  by (rule foldl_upsert_pres) (simp_all add: fld_mk_obj fld_add_to)

lemma aggregate_counts:
  "sum_list (map (\<lambda>e. num_of (snd e) ''count'') (aggregate_map key ds)) = Fin (real (length ds))"
  unfolding aggregate_map_def aggregate_step_upsert
  by (subst sum_list_foldl_upsert[where c = "\<lambda>d. Fin 1"])
     (simp_all add: num_of_add_to num_of_mk_obj sum_list_Fin_one)

lemma aggregate_categories:
  "map (\<lambda>g. fld g ''category'') (aggregate key ds) = first_seen (map (group_key key) ds)"
proof -
  have "map (\<lambda>g. fld g ''category'') (aggregate key ds)
          = map (\<lambda>g. fld g ''category'') (map snd (aggregate_map key ds))"
    by (simp add: aggregate_def map_values_def aggregate_row_def fld_mk_obj comp_def)
  also have "\<dots> = map fst (aggregate_map key ds)"
    by (rule map_snd_key) (rule aggregate_entry_key)
  finally show ?thesis by (simp add: aggregate_keys)
qed

text \<open>
  C1. Grouping by a key yields exactly one summary per distinct key value, in the order
  the keys were first seen, and the counts of the summaries add up to the number of
  input records. Shown for the parameter grouping of WaterAnalytics and for
  \<open>aggregate(key)\<close> of the Fugitive module, whose counts live in the map it folds
  (its output rows carry the averages instead).
\<close>

theorem grouping_one_summary_per_key:
  "map (\<lambda>g. fld g ''parameter'') (water_byParameter waterData)
     = first_seen (map (group_key ''parameter'') waterData)
   \<and> distinct (map (\<lambda>g. fld g ''parameter'') (water_byParameter waterData))
   \<and> set (map (\<lambda>g. fld g ''parameter'') (water_byParameter waterData))
       = set (map (group_key ''parameter'') waterData)
   \<and> length (water_byParameter waterData) = card (set (map (group_key ''parameter'') waterData))
   \<and> sum_list (map (\<lambda>g. num_of g ''count'') (water_byParameter waterData))
       = Fin (real (length waterData))
   \<and> map (\<lambda>g. fld g ''category'') (aggregate key data) = first_seen (map (group_key key) data)
   \<and> distinct (map (\<lambda>g. fld g ''category'') (aggregate key data))
   \<and> length (aggregate key data) = card (set (map (group_key key) data))
   \<and> sum_list (map (\<lambda>g. num_of g ''count'') (map_values (aggregate_map key data)))
       = Fin (real (length data))"
proof -
  have wk: "map (\<lambda>g. fld g ''parameter'') (water_byParameter waterData)
              = first_seen (map (group_key ''parameter'') waterData)"
    using map_snd_key[OF water_entry_key, of waterData]
    by (simp add: water_byParameter_def map_values_def water_keys first_seen_def)
  have wl: "length (water_byParameter waterData) = card (set (map (group_key ''parameter'') waterData))"
    using arg_cong[OF wk, of length] by (simp add: length_first_seen)
  have wc: "sum_list (map (\<lambda>g. num_of g ''count'') (water_byParameter waterData))
              = Fin (real (length waterData))"
    using water_counts[of waterData]
    by (simp add: water_byParameter_def map_values_def comp_def zero_jsnum_def)
  have al: "length (aggregate key data) = card (set (map (group_key key) data))"
    using arg_cong[OF aggregate_categories, of length key data] by (simp add: length_first_seen)
  have ac: "sum_list (map (\<lambda>g. num_of g ''count'') (map_values (aggregate_map key data)))
              = Fin (real (length data))"
    using aggregate_counts[of key data] by (simp add: map_values_def comp_def)
  show ?thesis
    unfolding wk aggregate_categories
    using wl wc al ac by (simp add: distinct_first_seen set_first_seen)
qed

theorem grouping_one_summary_per_key_witness:
  "map (\<lambda>g. fld g ''parameter'') (water_byParameter water_sample) = [Str (js ''Intake''), Unknown]
   \<and> sum_list (map (\<lambda>g. num_of g ''count'') (water_byParameter water_sample)) = Fin 3"
  using grouping_one_summary_per_key[of water_sample]
  by (simp add: water_sample_def first_seen_def add_key_def group_key_def js_or_def fld_mk_obj
                Unknown_def js_def)

subsection \<open>Totals and groups of one pass\<close>












subsection \<open>What a group holds\<close>

lemma distinct_keys_foldl_upsert:
  "distinct (map fst (foldl (\<lambda>m d. upsert (key d) (init d) (f d) m) [] ds))"
  using distinct_first_seen[of "map key ds"] by (simp add: map_fst_foldl_upsert first_seen_def)

lemma measure_foldl:
  fixes \<mu> :: "'v \<Rightarrow> 'a::comm_monoid_add"
  assumes "\<And>d g. \<mu> (f d g) = \<mu> g + c d"
  shows "\<mu> (foldl (\<lambda>g d. f d g) g0 rs) = \<mu> g0 + sum_list (map c rs)"
  by (induction rs arbitrary: g0) (simp_all add: assms ac_simps)

lemma group_measure_foldl_upsert:
  fixes \<mu> :: "'v \<Rightarrow> 'a::comm_monoid_add"
  assumes init: "\<And>d. \<mu> (init d) = 0" and step: "\<And>d g. \<mu> (f d g) = \<mu> g + c d"
    and mem: "(k, g) \<in> set (foldl (\<lambda>m d. upsert (key d) (init d) (f d) m) [] ds)"
  shows "\<mu> g = sum_list (map c (filter (\<lambda>d. key d = k) ds))"
proof -
  have "map_of (foldl (\<lambda>m d. upsert (key d) (init d) (f d) m) [] ds) k = Some g"
    using distinct_keys_foldl_upsert mem by (rule distinct_map_of_in)
  then have "(case filter (\<lambda>d. key d = k) ds of
                [] \<Rightarrow> None
              | r # rs \<Rightarrow> Some (foldl (\<lambda>g d. f d g) (init r) (r # rs))) = Some g"
    by (simp add: map_of_foldl_upsert split: list.splits)
  then obtain r rs where rs: "filter (\<lambda>d. key d = k) ds = r # rs"
    and g: "g = foldl (\<lambda>g d. f d g) (init r) (r # rs)"
    by (auto split: list.splits)
  have "\<mu> g = \<mu> (init r) + sum_list (map c (r # rs))"
    unfolding g using step by (rule measure_foldl)
  then show ?thesis by (simp add: rs init)
qed

lemma sum_list_Fin_one_filter:
  "sum_list (map (\<lambda>d. Fin 1) (filter P ds)) = Fin (real (length (filter P ds)))"
  by (rule sum_list_Fin_one)

subsection \<open>Electricity\<close>

lemma aggregateBy_step_upsert:
  "aggregateBy_step key =
     (\<lambda>m d. upsert (group_key key d)
        (mk_obj [(''category'', group_key key d)] [(''totalQuantity'', 0), (''totalCO2'', 0), (''count'', 0)])
        (\<lambda>agg. add_to ''count'' (Fin 1)
                   (add_to ''totalCO2'' (num_or (num_of d ''co2Emissions'') 0)
                   (add_to ''totalQuantity'' (num_or (num_of d ''quantity'') 0) agg))) m)"
  by (rule ext, rule ext) (simp add: aggregateBy_step_def group_key_def Let_def)

lemma aggregateBy_entry_key:
  "\<forall>(k, g) \<in> set (foldl (aggregateBy_step key) [] ds). fld g ''category'' = k"
  unfolding aggregateBy_step_upsert
  by (rule foldl_upsert_pres) (simp_all add: fld_mk_obj fld_add_to)

lemma aggregateBy_categories:
  "map (\<lambda>g. fld g ''category'') (aggregateBy key ds) = first_seen (map (group_key key) ds)"
proof -
  have "map (\<lambda>g. fld g ''category'') (map snd (foldl (aggregateBy_step key) [] ds))
          = map fst (foldl (aggregateBy_step key) [] ds)"
    by (rule map_snd_key) (rule aggregateBy_entry_key)
  then show ?thesis
    unfolding aggregateBy_def map_values_def aggregateBy_step_upsert
    by (simp add: map_fst_foldl_upsert first_seen_def)
qed

lemma aggregateBy_count_sum:
  "sum_list (map (\<lambda>g. num_of g ''count'') (aggregateBy key ds)) = Fin (real (length ds))"
proof -
  have "sum_list (map (\<lambda>e. num_of (snd e) ''count'') (foldl (aggregateBy_step key) [] ds))
          = Fin (real (length ds))"
    unfolding aggregateBy_step_upsert
    by (subst sum_list_foldl_upsert[where c = "\<lambda>d. Fin 1"])
       (simp_all add: num_of_add_to num_of_mk_obj sum_list_Fin_one)
  then show ?thesis by (simp add: aggregateBy_def map_values_def comp_def)
qed

lemma aggregateBy_group_count:
  assumes "g \<in> set (aggregateBy key ds)"
  shows "num_of g ''count'' = Fin (real (length (filter (\<lambda>d. group_key key d = fld g ''category'') ds)))"
proof -
  from assms obtain k where mem: "(k, g) \<in> set (foldl (aggregateBy_step key) [] ds)"
    by (auto simp: aggregateBy_def map_values_def)
  then have k: "fld g ''category'' = k"
    using aggregateBy_entry_key by fastforce
  have "num_of g ''count'' = sum_list (map (\<lambda>d. Fin 1) (filter (\<lambda>d. group_key key d = k) ds))"
    by (rule group_measure_foldl_upsert[where \<mu> = "\<lambda>g. num_of g ''count''",
          OF _ _ mem[unfolded aggregateBy_step_upsert]])
       (simp_all add: num_of_add_to num_of_mk_obj)
  then show ?thesis by (simp add: k sum_list_Fin_one)
qed

lemma group_key_enrich: "group_key key (enrich d) = group_key key d"
  by (simp add: group_key_def enrich_def set_num_def)

lemma group_key_Unknown_iff:
  "group_key key d = Unknown \<longleftrightarrow> \<not> truthy (fld d key) \<or> fld d key = Unknown"
  by (auto simp: group_key_def js_or_def)

lemma falsy_values:
  "\<not> truthy v \<longleftrightarrow> v \<in> {Undefined, Null, Bool False, Num NaN, Num (Fin 0), Str []}"
  by (cases v) auto

subsection \<open>Water\<close>

lemma water_group_count:
  assumes "g \<in> set (water_byParameter ds)"
  shows "num_of g ''count''
           = Fin (real (length (filter (\<lambda>d. group_key ''parameter'' d = fld g ''parameter'') ds)))"
proof -
  from assms obtain k where mem: "(k, g) \<in> set (foldl parameterMap_step [] ds)"
    by (auto simp: water_byParameter_def map_values_def split: if_splits)
  then have k: "fld g ''parameter'' = k"
    using water_entry_key by fastforce
  have "num_of g ''count''
          = sum_list (map (\<lambda>d. Fin 1) (filter (\<lambda>d. group_key ''parameter'' d = k) ds))"
    by (rule group_measure_foldl_upsert[where \<mu> = "\<lambda>g. num_of g ''count''",
          OF _ _ mem[unfolded parameterMap_step_upsert]])
       (simp_all add: num_of_add_to num_of_mk_obj)
  then show ?thesis by (simp add: k sum_list_Fin_one)
qed

subsection \<open>The default key\<close>

lemma collapsed_iff: "v \<in> collapsed \<longleftrightarrow> \<not> truthy v \<or> v = Unknown"
  by (auto simp: collapsed_def falsy_values)

lemma group_key_collapsed: "group_key key d = Unknown \<longleftrightarrow> fld d key \<in> collapsed"
  by (simp add: group_key_Unknown_iff collapsed_iff)

lemma electricity_categories:
  "map (\<lambda>g. fld g ''category'') (electricity_byCategory key data)
     = first_seen (map (group_key key) data)"
  by (simp add: electricity_byCategory_def aggregateBy_categories comp_def group_key_enrich
                first_seen_def)

lemma electricity_count_sum:
  "sum_list (map (\<lambda>g. num_of g ''count'') (electricity_byCategory key data)) = Fin (real (length data))"
  by (simp add: electricity_byCategory_def aggregateBy_count_sum zero_jsnum_def)

lemma electricity_group_count:
  assumes "g \<in> set (electricity_byCategory key data)"
  shows "num_of g ''count''
           = Fin (real (length (filter (\<lambda>d. group_key key d = fld g ''category'') data)))"
proof -
  from assms have g: "g \<in> set (aggregateBy key (map enrich data))"
    by (simp add: electricity_byCategory_def split: if_splits)
  show ?thesis
    using aggregateBy_group_count[OF g]
    by (simp add: filter_map comp_def group_key_enrich)
qed

lemma ex_key_iff: "(\<exists>g \<in> set xs. f g = u) \<longleftrightarrow> u \<in> set (map f xs)"
  by auto

lemma water_categories:
  "map (\<lambda>g. fld g ''parameter'') (water_byParameter ds)
     = first_seen (map (group_key ''parameter'') ds)"
  using map_snd_key[OF water_entry_key, of ds]
  by (simp add: water_byParameter_def map_values_def water_keys first_seen_def)

lemma water_sample_keys:
  "map (group_key ''parameter'') water_sample = [Str (js ''Intake''), Unknown, Str (js ''Intake'')]"
  by (simp add: water_sample_def group_key_def js_or_def fld_mk_obj Unknown_def js_def)

lemma water_sample_collapsed:
  "filter (\<lambda>d. fld d ''parameter'' \<in> collapsed) water_sample = [water_sample ! 1]"
  by (simp add: water_sample_def collapsed_def fld_mk_obj Unknown_def js_def)

lemma key_sample_keys:
  "map (group_key ''plant'') key_sample
     = [Unknown, Str (js ''Pune''), Unknown, Unknown, Unknown, Unknown]"
  by (simp add: key_sample_def group_key_def js_or_def fld_mk_obj Unknown_def js_def)

lemma key_sample_collapsed:
  "filter (\<lambda>d. fld d ''plant'' \<in> collapsed) key_sample
     = [key_sample ! 0, key_sample ! 2, key_sample ! 3, key_sample ! 4, key_sample ! 5]"
  by (simp add: key_sample_def collapsed_def fld_mk_obj Unknown_def js_def)

text \<open>
  C9. The default collapses every falsy field value onto the key \<open>Unknown\<close>: the empty
  string, the number 0, null and an absent field get the key that the string
  \<open>Unknown\<close> gets, the loop step does not tell two such records apart, and the one
  \<open>Unknown\<close> group counts them all. Shown for \<open>aggregateBy\<close> of the Electricity
  module and for the parameter grouping of WaterAnalytics.
\<close>

theorem falsy_keys_collapse_onto_Unknown:
  "(group_key key d = Unknown \<longleftrightarrow> fld d key \<in> collapsed)
   \<and> {Str [], Num (Fin 0), Null, Undefined, Str (js ''Unknown'')} \<subseteq> collapsed
   \<and> (fld d key \<in> collapsed \<and> fld d' key \<in> collapsed \<and> numfld d = numfld d'
        \<longrightarrow> aggregateBy_step key m d = aggregateBy_step key m d')
   \<and> (fld d ''parameter'' \<in> collapsed \<and> fld d' ''parameter'' \<in> collapsed \<and> numfld d = numfld d'
        \<longrightarrow> parameterMap_step m d = parameterMap_step m d')
   \<and> distinct (map (\<lambda>g. fld g ''category'') (electricity_byCategory key data))
   \<and> (\<forall>g \<in> set (electricity_byCategory key data). fld g ''category'' = Unknown \<longrightarrow>
         num_of g ''count'' = Fin (real (length (filter (\<lambda>d. fld d key \<in> collapsed) data))))
   \<and> distinct (map (\<lambda>g. fld g ''parameter'') (water_byParameter waterData))
   \<and> (\<forall>g \<in> set (water_byParameter waterData). fld g ''parameter'' = Unknown \<longrightarrow>
         num_of g ''count''
           = Fin (real (length (filter (\<lambda>d. fld d ''parameter'' \<in> collapsed) waterData))))
   \<and> map (\<lambda>g. fld g ''category'') (electricity_byCategory key data)
         = first_seen (map (group_key key) data)
   \<and> map (\<lambda>g. fld g ''parameter'') (water_byParameter waterData)
         = first_seen (map (group_key ''parameter'') waterData)
   \<and> ((\<exists>g \<in> set (electricity_byCategory key data). fld g ''category'' = Unknown)
          \<longleftrightarrow> (\<exists>d \<in> set data. fld d key \<in> collapsed))
   \<and> ((\<exists>g \<in> set (water_byParameter waterData). fld g ''parameter'' = Unknown)
          \<longleftrightarrow> (\<exists>d \<in> set waterData. fld d ''parameter'' \<in> collapsed))"
proof -
  have sub: "{Str [], Num (Fin 0), Null, Undefined, Str (js ''Unknown'')} \<subseteq> collapsed"
    by (simp add: collapsed_def Unknown_def)
  have e_step: "fld d key \<in> collapsed \<and> fld d' key \<in> collapsed \<and> numfld d = numfld d'
        \<longrightarrow> aggregateBy_step key m d = aggregateBy_step key m d'"
    by (simp add: aggregateBy_step_upsert group_key_collapsed[symmetric] num_of_def)
  have w_step: "fld d ''parameter'' \<in> collapsed \<and> fld d' ''parameter'' \<in> collapsed \<and> numfld d = numfld d'
        \<longrightarrow> parameterMap_step m d = parameterMap_step m d'"
    by (simp add: parameterMap_step_upsert group_key_collapsed[symmetric] num_of_def)
  have e_dist: "distinct (map (\<lambda>g. fld g ''category'') (electricity_byCategory key data))"
    by (simp add: electricity_categories distinct_first_seen)
  have e_cnt: "\<forall>g \<in> set (electricity_byCategory key data). fld g ''category'' = Unknown \<longrightarrow>
         num_of g ''count'' = Fin (real (length (filter (\<lambda>d. fld d key \<in> collapsed) data)))"
    using electricity_group_count[of _ key data] by (auto simp: group_key_collapsed)
  have w_dist: "distinct (map (\<lambda>g. fld g ''parameter'') (water_byParameter waterData))"
    using map_snd_key[OF water_entry_key, of waterData]
    by (simp add: water_byParameter_def map_values_def water_keys distinct_first_seen)
  have w_cnt: "\<forall>g \<in> set (water_byParameter waterData). fld g ''parameter'' = Unknown \<longrightarrow>
         num_of g ''count''
           = Fin (real (length (filter (\<lambda>d. fld d ''parameter'' \<in> collapsed) waterData)))"
    using water_group_count[of _ waterData] by (auto simp: group_key_collapsed)
  have e_keys: "map (\<lambda>g. fld g ''category'') (electricity_byCategory key data)
                  = first_seen (map (group_key key) data)"
    by (rule electricity_categories)
  have w_keys: "map (\<lambda>g. fld g ''parameter'') (water_byParameter waterData)
                  = first_seen (map (group_key ''parameter'') waterData)"
    by (rule water_categories)
  have "(\<exists>g \<in> set (electricity_byCategory key data). fld g ''category'' = Unknown)
          \<longleftrightarrow> Unknown \<in> set (map (\<lambda>g. fld g ''category'') (electricity_byCategory key data))"
    by (rule ex_key_iff)
  also have "\<dots> \<longleftrightarrow> (\<exists>d \<in> set data. group_key key d = Unknown)"
    unfolding e_keys set_first_seen by (rule ex_key_iff[symmetric])
  also have "\<dots> \<longleftrightarrow> (\<exists>d \<in> set data. fld d key \<in> collapsed)"
    by (simp only: group_key_collapsed)
  finally have e_ex: "(\<exists>g \<in> set (electricity_byCategory key data). fld g ''category'' = Unknown)
          \<longleftrightarrow> (\<exists>d \<in> set data. fld d key \<in> collapsed)" .
  have "(\<exists>g \<in> set (water_byParameter waterData). fld g ''parameter'' = Unknown)
          \<longleftrightarrow> Unknown \<in> set (map (\<lambda>g. fld g ''parameter'') (water_byParameter waterData))"
    by (rule ex_key_iff)
  also have "\<dots> \<longleftrightarrow> (\<exists>d \<in> set waterData. group_key ''parameter'' d = Unknown)"
    unfolding w_keys set_first_seen by (rule ex_key_iff[symmetric])
  also have "\<dots> \<longleftrightarrow> (\<exists>d \<in> set waterData. fld d ''parameter'' \<in> collapsed)"
    by (simp only: group_key_collapsed)
  finally have w_ex: "(\<exists>g \<in> set (water_byParameter waterData). fld g ''parameter'' = Unknown)
          \<longleftrightarrow> (\<exists>d \<in> set waterData. fld d ''parameter'' \<in> collapsed)" .
  show ?thesis
    using sub e_step w_step e_dist e_cnt w_dist w_cnt e_keys w_keys e_ex w_ex
    by (simp only: group_key_collapsed simp_thms)
qed

theorem falsy_keys_collapse_onto_Unknown_witness:
  "map (\<lambda>g. fld g ''category'') (electricity_byCategory ''plant'' key_sample) = [Unknown, Str (js ''Pune'')]
   \<and> num_of (hd (electricity_byCategory ''plant'' key_sample)) ''count'' = Fin 5
   \<and> map (\<lambda>g. fld g ''parameter'') (water_byParameter water_sample) = [Str (js ''Intake''), Unknown]
   \<and> num_of (water_byParameter water_sample ! 1) ''count'' = Fin 1"
proof -
  note th = falsy_keys_collapse_onto_Unknown[where key = "''plant''" and data = key_sample
              and waterData = water_sample]
  have cats: "map (\<lambda>g. fld g ''category'') (electricity_byCategory ''plant'' key_sample)
                = [Unknown, Str (js ''Pune'')]"
    using th by (simp add: key_sample_keys first_seen_def add_key_def Unknown_def js_def)
  then obtain g1 g2 where gs: "electricity_byCategory ''plant'' key_sample = [g1, g2]"
    and g1: "fld g1 ''category'' = Unknown"
    by (auto simp: map_eq_Cons_conv)
  have c1: "num_of g1 ''count'' = Fin 5"
    using th g1 by (simp add: gs key_sample_collapsed)
  have params: "map (\<lambda>g. fld g ''parameter'') (water_byParameter water_sample)
                  = [Str (js ''Intake''), Unknown]"
    using th by (simp add: water_sample_keys first_seen_def add_key_def Unknown_def js_def)
  then obtain w1 w2 where ws: "water_byParameter water_sample = [w1, w2]"
    and w2: "fld w2 ''parameter'' = Unknown"
    by (auto simp: map_eq_Cons_conv)
  have c2: "num_of w2 ''count'' = Fin 1"
    using th w2 by (simp add: ws water_sample_collapsed)
  show ?thesis using cats c1 params c2 by (simp add: gs ws)
qed
subsection \<open>Diversity: the guarded breakdown\<close>

lemma complaintsBy_step_skip: "\<not> truthy (fld d dimKey) \<Longrightarrow> complaintsBy_step dimKey m d = m"
  by (simp add: complaintsBy_step_def)

lemma complaintsBy_keys:
  "map fst (foldl (complaintsBy_step dimKey) m ds)
     = foldl add_key (map fst m) (filter truthy (map (\<lambda>d. fld d dimKey) ds))"
  by (induction ds arbitrary: m)
     (simp_all add: complaintsBy_step_def map_fst_map_set add_key_def)

text \<open>
  C4, as stated, fails on the Diversity breakdown: a record whose \<open>dim1\<close> is empty is
  left out of the groups (no \<open>Unknown\<close> group appears), while its complaints are in the
  overview total.
\<close>

theorem diversity_drops_records_without_dim1:
  "map (\<lambda>g. (fld g ''category'', num_of g ''totalComplaints'')) (complaintsBreakdown diversity_sample)
     = [(Str (js ''Ops''), Fin 2)]
   \<and> diversity_totalComplaints diversity_sample = Fin 5"
  by (simp add: complaintsBreakdown_def complaintsByDim1_def complaintsBy_step_def diversity_sample_def
        diversity_totalComplaints_def map_get_def fld_mk_obj num_of_mk_obj js_def zero_jsnum_def)

text \<open>
  C4, amended. Where the loop defaults the key (\<open>aggregateBy\<close> of the Electricity
  module), a record whose grouping field is missing or empty gets the key \<open>Unknown\<close>,
  no record is dropped (the counts add up to the number of records), there is one group
  per key, and each group counts exactly the records of its key, so the records without
  the field are all in the one \<open>Unknown\<close> group. The Diversity breakdown guards with
  \<open>if (d.dim1)\<close> instead: a record without the dimension leaves the map as it is, and
  the keys of the map are the non-empty dimension values in first-seen order.
\<close>

theorem missing_key_defaults_to_Unknown_or_is_skipped:
  "(\<not> truthy (fld d key) \<longrightarrow> group_key key d = Unknown)
   \<and> map (\<lambda>g. fld g ''category'') (electricity_byCategory key data)
       = first_seen (map (group_key key) data)
   \<and> sum_list (map (\<lambda>g. num_of g ''count'') (electricity_byCategory key data))
       = Fin (real (length data))
   \<and> (\<forall>g \<in> set (electricity_byCategory key data).
         num_of g ''count''
           = Fin (real (length (filter (\<lambda>d. group_key key d = fld g ''category'') data))))
   \<and> (\<not> truthy (fld d ''dim1'') \<longrightarrow> complaintsBy_step ''dim1'' m d = m)
   \<and> map fst (complaintsByDim1 complaints)
       = first_seen (filter truthy (map (\<lambda>d. fld d ''dim1'') complaints))"
proof -
  have k: "\<not> truthy (fld d key) \<longrightarrow> group_key key d = Unknown"
    by (simp add: group_key_Unknown_iff)
  have c: "\<forall>g \<in> set (electricity_byCategory key data).
         num_of g ''count''
           = Fin (real (length (filter (\<lambda>d. group_key key d = fld g ''category'') data)))"
    using electricity_group_count by blast
  have s: "\<not> truthy (fld d ''dim1'') \<longrightarrow> complaintsBy_step ''dim1'' m d = m"
    by (simp add: complaintsBy_step_skip)
  have d: "map fst (complaintsByDim1 complaints)
       = first_seen (filter truthy (map (\<lambda>d. fld d ''dim1'') complaints))"
    by (simp add: complaintsByDim1_def complaintsBy_keys first_seen_def)
  show ?thesis
    using k c s d by (simp only: electricity_categories electricity_count_sum simp_thms)
qed

theorem missing_key_defaults_to_Unknown_or_is_skipped_witness:
  "map (\<lambda>g. fld g ''category'') (electricity_byCategory ''plant'' key_sample) = [Unknown, Str (js ''Pune'')]
   \<and> sum_list (map (\<lambda>g. num_of g ''count'') (electricity_byCategory ''plant'' key_sample)) = Fin 6
   \<and> map fst (complaintsByDim1 diversity_sample) = [Str (js ''Ops'')]"
proof -
  note th = missing_key_defaults_to_Unknown_or_is_skipped[where key = "''plant''" and data = key_sample
      and complaints = diversity_sample and d = empty_obj and m = "[]"]
  have a: "map (\<lambda>g. fld g ''category'') (electricity_byCategory ''plant'' key_sample)
             = first_seen (map (group_key ''plant'') key_sample)"
    using th by blast
  have b: "sum_list (map (\<lambda>g. num_of g ''count'') (electricity_byCategory ''plant'' key_sample))
             = Fin (real (length key_sample))"
    using th by blast
  have c: "map fst (complaintsByDim1 diversity_sample)
             = first_seen (filter truthy (map (\<lambda>d. fld d ''dim1'') diversity_sample))"
    using th by blast
  have a': "first_seen (map (group_key ''plant'') key_sample) = [Unknown, Str (js ''Pune'')]"
    unfolding key_sample_keys by (simp add: first_seen_def add_key_def Unknown_def js_def)
  have b': "length key_sample = 6"
    by (simp add: key_sample_def)
  have c': "first_seen (filter truthy (map (\<lambda>d. fld d ''dim1'') diversity_sample)) = [Str (js ''Ops'')]"
    by (simp add: diversity_sample_def fld_mk_obj first_seen_def add_key_def js_def)
  show ?thesis
    unfolding a b c a' b' c' by simp
qed

subsection \<open>Averages\<close>

lemma aggregate_group_measure:
  assumes mem: "(k, v) \<in> set (aggregate_map key ds)"
    and f: "(f, x) \<in> {(''convFactorSum'', ''convFactor''), (''rIntensitySum'', ''rIntensity''),
                       (''pppIntensitySum'', ''pppIntensity'')}"
  shows "num_of v f = sum_list (map (\<lambda>d. num_or (num_of d x) 0) (filter (\<lambda>d. group_key key d = k) ds))"
  using f
  by (intro group_measure_foldl_upsert[where \<mu> = "\<lambda>g. num_of g f",
        OF _ _ mem[unfolded aggregate_map_def aggregate_step_upsert]])
     (auto simp: num_of_add_to num_of_mk_obj)

lemma aggregate_group_count:
  assumes mem: "(k, v) \<in> set (aggregate_map key ds)"
  shows "num_of v ''count'' = Fin (real (length (filter (\<lambda>d. group_key key d = k) ds)))"
proof -
  have "num_of v ''count'' = sum_list (map (\<lambda>d. Fin 1) (filter (\<lambda>d. group_key key d = k) ds))"
    by (rule group_measure_foldl_upsert[where \<mu> = "\<lambda>g. num_of g ''count''",
          OF _ _ mem[unfolded aggregate_map_def aggregate_step_upsert]])
       (simp_all add: num_of_add_to num_of_mk_obj)
  then show ?thesis by (simp add: sum_list_Fin_one)
qed

lemma aggregate_group_nonempty:
  assumes mem: "(k, v) \<in> set (aggregate_map key ds)"
  shows "filter (\<lambda>d. group_key key d = k) ds \<noteq> []"
proof -
  have "k \<in> set (map fst (aggregate_map key ds))"
    using mem by force
  then have "k \<in> set (map (group_key key) ds)"
    by (simp only: aggregate_keys set_first_seen)
  then show ?thesis by (auto simp: filter_empty_conv)
qed

text \<open>
  In the Fugitive module every average of a group is the group's sum of the field
  divided by the group's count.
\<close>

lemma aggregate_average_is_sum_over_count:
  assumes g: "g \<in> set (aggregate key ds)"
  shows "num_of g ''avgConvFactor''
           = js_div (sum_list (map (\<lambda>d. num_or (num_of d ''convFactor'') 0)
                       (filter (\<lambda>d. group_key key d = fld g ''category'') ds)))
                    (Fin (real (length (filter (\<lambda>d. group_key key d = fld g ''category'') ds))))"
proof -
  from g obtain k v where mem: "(k, v) \<in> set (aggregate_map key ds)" and gv: "g = aggregate_row v"
    by (auto simp: aggregate_def map_values_def)
  have cat: "fld g ''category'' = k"
    using aggregate_entry_key mem by (fastforce simp: gv aggregate_row_def fld_mk_obj)
  have cnt: "num_of v ''count'' = Fin (real (length (filter (\<lambda>d. group_key key d = k) ds)))"
    using mem by (rule aggregate_group_count)
  have pos: "length (filter (\<lambda>d. group_key key d = k) ds) \<noteq> 0"
    using aggregate_group_nonempty[OF mem] by simp
  have sm: "num_of v ''convFactorSum''
              = sum_list (map (\<lambda>d. num_or (num_of d ''convFactor'') 0) (filter (\<lambda>d. group_key key d = k) ds))"
    using mem by (rule aggregate_group_measure) simp
  show ?thesis
    unfolding cat using pos
    by (simp add: gv aggregate_row_def num_of_mk_obj avg_of_def cnt sm)
qed

text \<open>
  C5. In the fossil-fuel module the per-type average divides the type's sum of
  conversion factors by the number of all records, not by the number of records of the
  type: with one Diesel record of factor 2 and one Petrol record of factor 4 the averages
  come out as 1 and 2, where sum over count gives 2 and 4. The Fugitive module, on the
  same data, gives 2 and 4.
\<close>

theorem fossil_average_divides_by_all_records:
  "map (\<lambda>g. (fld g ''type'', num_of g ''avgConvFactor'')) (fossil_byType fossil_sample)
     = [(Str (js ''Diesel''), Fin 1), (Str (js ''Petrol''), Fin 2)]
   \<and> map (\<lambda>g. (fld g ''category'', num_of g ''avgConvFactor'')) (aggregate ''type'' fossil_sample)
     = [(Str (js ''Diesel''), Fin 2), (Str (js ''Petrol''), Fin 4)]"
  by (simp add: fossil_byType_def fossil_run_def fossil_step_def fossil_sample_def Let_def
        aggregate_def aggregate_map_def aggregate_step_def aggregate_row_def avg_of_def
        upsert_def map_has_def map_get_def map_values_def mk_obj_def
        add_to_def set_num_def num_of_def num_or_def js_or_def Unknown_def js_def zero_jsnum_def)

subsection \<open>Sorting\<close>
















subsection \<open>Top contributors\<close>








section \<open>Facts about the loaders\<close>

declare header_loop.simps [simp del]

lemma header_loop_Some:
  "header_loop fm rows i = Some (j, h) \<Longrightarrow>
     i \<le> j \<and> j < min 10 (length rows) \<and> h = rows ! j \<and> hasAllCols fm (rows ! j)
     \<and> (\<forall>k. i \<le> k \<and> k < j \<longrightarrow> \<not> hasAllCols fm (rows ! k))"
proof (induction fm rows i rule: header_loop.induct)
  case (1 fm rows i)
  show ?case
  proof (cases "i < min 10 (length rows) \<and> \<not> hasAllCols fm (rows ! i)")
    case True
    then have "header_loop fm rows (i + 1) = Some (j, h)"
      using "1.prems" by (simp add: header_loop.simps[of fm rows i])
    then have ih: "i + 1 \<le> j \<and> j < min 10 (length rows) \<and> h = rows ! j \<and> hasAllCols fm (rows ! j)
       \<and> (\<forall>k. i + 1 \<le> k \<and> k < j \<longrightarrow> \<not> hasAllCols fm (rows ! k))"
      using "1.IH" True by blast
    have "\<forall>k. i \<le> k \<and> k < j \<longrightarrow> \<not> hasAllCols fm (rows ! k)"
    proof (intro allI impI)
      fix k assume k: "i \<le> k \<and> k < j"
      show "\<not> hasAllCols fm (rows ! k)"
      proof (cases "k = i")
        case True
        then show ?thesis using \<open>i < min 10 (length rows) \<and> \<not> hasAllCols fm (rows ! i)\<close> by simp
      next
        case False
        then have "i + 1 \<le> k" using k by simp
        then show ?thesis using ih k by blast
      qed
    qed
    then show ?thesis using ih by simp
  next
    case False
    then show ?thesis
      using "1.prems" by (auto simp: header_loop.simps[of fm rows i] split: if_splits)
  qed
qed

lemma header_loop_None:
  "header_loop fm rows i = None \<longleftrightarrow>
     (\<forall>k. i \<le> k \<and> k < min 10 (length rows) \<longrightarrow> \<not> hasAllCols fm (rows ! k))"
proof (induction fm rows i rule: header_loop.induct)
  case (1 fm rows i)
  show ?case
  proof (cases "i < min 10 (length rows)")
    case False
    then have "header_loop fm rows i = None"
      by (simp only: header_loop.simps[of fm rows i] if_False)
    moreover have "\<forall>k. i \<le> k \<and> k < min 10 (length rows) \<longrightarrow> \<not> hasAllCols fm (rows ! k)"
      using False by auto
    ultimately show ?thesis by simp
  next
    case True
    show ?thesis
    proof (cases "hasAllCols fm (rows ! i)")
      case True
      then show ?thesis
        using \<open>i < min 10 (length rows)\<close> by (auto simp: header_loop.simps[of fm rows i])
    next
      case False
      have "header_loop fm rows i = header_loop fm rows (i + 1)"
        using False \<open>i < min 10 (length rows)\<close> by (simp add: header_loop.simps[of fm rows i])
      moreover have "(\<forall>k. i \<le> k \<and> k < min 10 (length rows) \<longrightarrow> \<not> hasAllCols fm (rows ! k))
                 \<longleftrightarrow> (\<forall>k. i + 1 \<le> k \<and> k < min 10 (length rows) \<longrightarrow> \<not> hasAllCols fm (rows ! k))"
        using False by (metis Suc_eq_plus1 Suc_leI le_neq_implies_less Suc_leD)
      ultimately show ?thesis
        using "1.IH"[OF \<open>i < min 10 (length rows)\<close> False] by simp
    qed
  qed
qed

lemma header_loop_first:
  assumes "j < min 10 (length rows)" and "hasAllCols fm (rows ! j)"
    and "\<forall>k < j. \<not> hasAllCols fm (rows ! k)"
  shows "header_loop fm rows 0 = Some (j, rows ! j)"
proof (cases "header_loop fm rows 0")
  case None
  then show ?thesis using assms(1,2) by (simp add: header_loop_None)
next
  case (Some hit)
  obtain j' h where hit: "hit = (j', h)" by (cases hit)
  have p: "j' < min 10 (length rows) \<and> h = rows ! j' \<and> hasAllCols fm (rows ! j')
           \<and> (\<forall>k. k < j' \<longrightarrow> \<not> hasAllCols fm (rows ! k))"
    using header_loop_Some[of fm rows 0 j' h] Some hit by simp
  have "j' = j"
    using p assms(2,3) by (meson linorder_neqE_nat)
  then show ?thesis using Some hit p by simp
qed

lemma find_header_Inr:
  "find_header fm rows = Inr (i, h) \<longleftrightarrow>
     i < min 10 (length rows) \<and> hasAllCols fm (rows ! i)
     \<and> (\<forall>j < i. \<not> hasAllCols fm (rows ! j)) \<and> h = rows ! i"
proof
  assume "find_header fm rows = Inr (i, h)"
  then have "header_loop fm rows 0 = Some (i, h)"
    by (simp add: find_header_def split: option.splits)
  then show "i < min 10 (length rows) \<and> hasAllCols fm (rows ! i)
     \<and> (\<forall>j < i. \<not> hasAllCols fm (rows ! j)) \<and> h = rows ! i"
    using header_loop_Some[of fm rows 0 i h] by simp
next
  assume "i < min 10 (length rows) \<and> hasAllCols fm (rows ! i)
     \<and> (\<forall>j < i. \<not> hasAllCols fm (rows ! j)) \<and> h = rows ! i"
  then show "find_header fm rows = Inr (i, h)"
    using header_loop_first[of i rows fm] by (simp add: find_header_def)
qed

lemma find_header_Inl:
  "find_header fm rows = Inl e \<longleftrightarrow>
     e = HeaderRowNotFound \<and> (\<forall>j < min 10 (length rows). \<not> hasAllCols fm (rows ! j))"
  using header_loop_None[of fm rows 0]
  by (auto simp: find_header_def split: option.splits)

lemma hasAllCols_iff: "hasAllCols fm r \<longleftrightarrow> (\<forall>col \<in> set (map fst fm). Str col \<in> set r)"
  by (simp add: hasAllCols_def list_all_iff)

lemma status_finish_upload:
  "uploadStatus (finish_upload s r) = (case r of Inl e \<Rightarrow> Error | Inr p \<Rightarrow> Success)"
  by (simp add: finish_upload_def split: sum.splits)

lemma scope3_parse_Inr:
  "scope3_parse nts rows = Inr recs \<longleftrightarrow>
     2 \<le> length rows \<and> recs \<noteq> []
     \<and> (\<exists>i h. find_header scope3_fieldMapping rows = Inr (i, h)
               \<and> recs = map (scope3_mapRow nts h) (filter not_blank (drop (i + 1) rows)))"
  by (auto simp: scope3_parse_def Let_def split: sum.splits if_splits)


lemma scope3_parse_no_header:
  assumes "find_header scope3_fieldMapping rows = Inl e"
  shows "scope3_parse nts rows = (if length rows < 2 then Inl TooFewRows else Inl HeaderRowNotFound)"
proof -
  have "e = HeaderRowNotFound"
    using assms by (simp add: find_header_Inl)
  then show ?thesis
    using assms by (simp add: scope3_parse_def)
qed

lemma diversity_parse_no_header:
  assumes "find_header diversity_fieldMapping rows = Inl e"
  shows "diversity_parse nts rows = (if length rows < 2 then Inl TooFewRows else Inl HeaderRowNotFound)"
proof -
  have "e = HeaderRowNotFound"
    using assms by (simp add: find_header_Inl)
  then show ?thesis
    using assms by (simp add: diversity_parse_def)
qed

lemma hasAllCols_scope3_header: "hasAllCols scope3_fieldMapping scope3_header"
  by (simp add: hasAllCols_def scope3_header_def list_all_iff)

lemma scope3_header_cells: "Str l \<in> set scope3_header \<longleftrightarrow> l \<in> set (map fst scope3_fieldMapping)"
  by (auto simp: scope3_header_def)



lemma all_less_2: "(\<forall>j<2. P j) \<longleftrightarrow> P (0::nat) \<and> P 1"
  unfolding numeral_2_eq_2 One_nat_def by (auto simp: less_Suc_eq)



text \<open>
  C8. A data row whose cells are all null, undefined or empty is skipped, the records are
  the images of the remaining rows, and a load that keeps no row fails with
  \<open>No valid data found\<close> (status \<open>error\<close>) instead of delivering an empty sequence.
  Shown for Scope 3 and for Openness, whose header is the fifth row and whose message is
  \<open>No data found\<close>.
\<close>

theorem blank_rows_skipped_and_empty_load_fails:
  "(not_blank r \<longleftrightarrow> \<not> (\<forall>c \<in> set r. c = Null \<or> c = Undefined \<or> c = Str []))
   \<and> (scope3_parse nts rows = Inr recs \<longrightarrow>
        recs \<noteq> []
        \<and> (\<exists>i h. find_header scope3_fieldMapping rows = Inr (i, h)
               \<and> recs = map (scope3_mapRow nts h) (filter not_blank (drop (i + 1) rows))))
   \<and> (2 \<le> length rows \<and> find_header scope3_fieldMapping rows = Inr (i, h)
        \<and> (\<forall>r \<in> set (drop (i + 1) rows). \<not> not_blank r) \<longrightarrow>
        scope3_parse nts rows = Inl NoValidData
        \<and> uploadStatus (scope3_handleFileUpload nts s rows) = Error)
   \<and> (openness_parse nts rows = Inr recs \<longrightarrow>
        recs \<noteq> []
        \<and> (\<exists>colIndexMap. recs = map (openness_mapRow nts colIndexMap) (filter not_blank (drop 5 rows))))
   \<and> (4 < length rows \<and> (\<forall>r \<in> set (drop 5 rows). \<not> not_blank r) \<longrightarrow>
        openness_parse nts rows = Inl NoValidData
        \<and> uploadStatus (openness_handleUpload nts s rows) = Error)"
proof -
  have nb: "not_blank r \<longleftrightarrow> \<not> (\<forall>c \<in> set r. c = Null \<or> c = Undefined \<or> c = Str [])"
    by (auto simp: not_blank_def list_ex_iff)
  have a: "scope3_parse nts rows = Inr recs \<longrightarrow>
        recs \<noteq> []
        \<and> (\<exists>i h. find_header scope3_fieldMapping rows = Inr (i, h)
               \<and> recs = map (scope3_mapRow nts h) (filter not_blank (drop (i + 1) rows)))"
    by (simp add: scope3_parse_Inr)
  have b: "2 \<le> length rows \<and> find_header scope3_fieldMapping rows = Inr (i, h)
        \<and> (\<forall>r \<in> set (drop (i + 1) rows). \<not> not_blank r) \<longrightarrow>
        scope3_parse nts rows = Inl NoValidData
        \<and> uploadStatus (scope3_handleFileUpload nts s rows) = Error"
    by (auto simp: scope3_parse_def scope3_handleFileUpload_def status_finish_upload Let_def
                   filter_empty_conv)
  have c: "openness_parse nts rows = Inr recs \<longrightarrow>
        recs \<noteq> []
        \<and> (\<exists>colIndexMap. recs = map (openness_mapRow nts colIndexMap) (filter not_blank (drop 5 rows)))"
    by (auto simp: openness_parse_def Let_def split: if_splits)
  have d: "4 < length rows \<and> (\<forall>r \<in> set (drop 5 rows). \<not> not_blank r) \<longrightarrow>
        openness_parse nts rows = Inl NoValidData
        \<and> uploadStatus (openness_handleUpload nts s rows) = Error"
    by (auto simp: openness_parse_def openness_handleUpload_def status_finish_upload Let_def
                   filter_empty_conv)
  show ?thesis
    using nb a b c d by blast
qed

theorem blank_rows_skipped_and_empty_load_fails_witness:
  "scope3_parse (\<lambda>n. []) blank_grid = Inl NoValidData
   \<and> uploadStatus (scope3_handleFileUpload (\<lambda>n. []) \<lparr>records = [], uploadStatus = Idle\<rparr> blank_grid) = Error"
proof -
  have h: "find_header scope3_fieldMapping blank_grid = Inr (0, scope3_header)"
    using hasAllCols_scope3_header by (simp add: find_header_Inr blank_grid_def)
  have bl: "\<forall>r \<in> set (drop (0 + 1) blank_grid). \<not> not_blank r"
    by (simp add: blank_grid_def not_blank_def)
  have len: "2 \<le> length blank_grid"
    by (simp add: blank_grid_def)
  show ?thesis
    using blank_rows_skipped_and_empty_load_fails[where rows = blank_grid and i = 0
            and h = scope3_header and nts = "\<lambda>n. []"
            and s = "\<lparr>records = [], uploadStatus = Idle\<rparr>"] h bl len
    by blast
qed

text \<open>
  C10. A row is the header only if it has every key of the module's whole field mapping
  among its cells, the alternate spellings \<open>Sr.No.\<close> and \<open>Sr No\<close> of the Diversity
  mapping included: when some mapped label is in no row of the scanned window, no header
  is found and the load ends in the status \<open>error\<close>, with the error
  \<open>Header row not found\<close> for a sheet of two rows or more.
\<close>

theorem header_needs_every_mapped_label:
  "js ''Sr.No.'' \<in> set (map fst diversity_fieldMapping)
   \<and> js ''Sr No'' \<in> set (map fst diversity_fieldMapping)
   \<and> length (map fst diversity_fieldMapping) = 17
   \<and> length (map fst scope3_fieldMapping) = 14
   \<and> (hasAllCols diversity_fieldMapping r \<longleftrightarrow>
        (\<forall>l \<in> set (map fst diversity_fieldMapping). Str l \<in> set r))
   \<and> (hasAllCols scope3_fieldMapping r \<longleftrightarrow>
        (\<forall>l \<in> set (map fst scope3_fieldMapping). Str l \<in> set r))
   \<and> (l \<in> set (map fst diversity_fieldMapping) \<and> Str l \<notin> set r \<longrightarrow>
        \<not> hasAllCols diversity_fieldMapping r)
   \<and> (l \<in> set (map fst diversity_fieldMapping)
        \<and> (\<forall>j < min 10 (length rows). Str l \<notin> set (rows ! j)) \<longrightarrow>
        find_header diversity_fieldMapping rows = Inl HeaderRowNotFound
        \<and> uploadStatus (diversity_handleFileUpload nts s rows) = Error
        \<and> (2 \<le> length rows \<longrightarrow> diversity_parse nts rows = Inl HeaderRowNotFound))
   \<and> (l \<in> set (map fst scope3_fieldMapping)
        \<and> (\<forall>j < min 10 (length rows). Str l \<notin> set (rows ! j)) \<longrightarrow>
        find_header scope3_fieldMapping rows = Inl HeaderRowNotFound
        \<and> uploadStatus (scope3_handleFileUpload nts s rows) = Error
        \<and> (2 \<le> length rows \<longrightarrow> scope3_parse nts rows = Inl HeaderRowNotFound))"
proof -
  have k: "js ''Sr.No.'' \<in> set (map fst diversity_fieldMapping)
     \<and> js ''Sr No'' \<in> set (map fst diversity_fieldMapping)
     \<and> length (map fst diversity_fieldMapping) = 17
     \<and> length (map fst scope3_fieldMapping) = 14"
    by (simp add: diversity_fieldMapping_def scope3_fieldMapping_def)
  have miss: "\<And>fm. l \<in> set (map fst fm) \<and> (\<forall>j < min 10 (length rows). Str l \<notin> set (rows ! j))
                 \<Longrightarrow> find_header fm rows = Inl HeaderRowNotFound"
    unfolding find_header_Inl hasAllCols_iff by blast
  have d: "l \<in> set (map fst diversity_fieldMapping)
        \<and> (\<forall>j < min 10 (length rows). Str l \<notin> set (rows ! j)) \<longrightarrow>
        find_header diversity_fieldMapping rows = Inl HeaderRowNotFound
        \<and> uploadStatus (diversity_handleFileUpload nts s rows) = Error
        \<and> (2 \<le> length rows \<longrightarrow> diversity_parse nts rows = Inl HeaderRowNotFound)"
    using miss[of diversity_fieldMapping]
    by (auto simp: diversity_handleFileUpload_def status_finish_upload diversity_parse_no_header)
  have c: "l \<in> set (map fst scope3_fieldMapping)
        \<and> (\<forall>j < min 10 (length rows). Str l \<notin> set (rows ! j)) \<longrightarrow>
        find_header scope3_fieldMapping rows = Inl HeaderRowNotFound
        \<and> uploadStatus (scope3_handleFileUpload nts s rows) = Error
        \<and> (2 \<le> length rows \<longrightarrow> scope3_parse nts rows = Inl HeaderRowNotFound)"
    using miss[of scope3_fieldMapping]
    by (auto simp: scope3_handleFileUpload_def status_finish_upload scope3_parse_no_header)
  have n: "l \<in> set (map fst diversity_fieldMapping) \<and> Str l \<notin> set r \<longrightarrow>
        \<not> hasAllCols diversity_fieldMapping r"
    unfolding hasAllCols_iff by blast
  show ?thesis
    using k c d n hasAllCols_iff[of diversity_fieldMapping r] hasAllCols_iff[of scope3_fieldMapping r]
    by blast
qed

theorem header_needs_every_mapped_label_witness:
  "diversity_parse (\<lambda>n. []) diversity_grid = Inl HeaderRowNotFound
   \<and> uploadStatus (diversity_handleFileUpload (\<lambda>n. []) \<lparr>records = [], uploadStatus = Idle\<rparr> diversity_grid) = Error"
proof -
  have l: "js ''Sr No'' \<in> set (map fst diversity_fieldMapping)"
    by (simp add: diversity_fieldMapping_def)
  have len: "length diversity_grid = 2"
    by (simp add: diversity_grid_def)
  have absent: "\<forall>j < min 10 (length diversity_grid). Str (js ''Sr No'') \<notin> set (diversity_grid ! j)"
    unfolding len by (simp add: all_less_2) (simp add: diversity_grid_def diversity_fieldMapping_def js_def)
  show ?thesis
    using header_needs_every_mapped_label[where l = "js ''Sr No''" and rows = diversity_grid
            and r = "[]" and nts = "\<lambda>n. []" and s = "\<lparr>records = [], uploadStatus = Idle\<rparr>"] l absent len
    by simp
qed

section \<open>Facts about the coercion\<close>



lemma digit_not_stripped:
  "is_digit c \<Longrightarrow> c \<notin> set currency \<and> c \<notin> set openness_class \<and> c \<notin> set spec_symbols"
  by (auto simp: is_digit_def currency_def openness_class_def spec_symbols_def)


























end
